theory Spec2Isabelle
  imports Main "HOL-Library.Sublist"
begin

section \<open>Python values, strings and dates\<close>

text \<open>
  The transform module \<^verbatim>\<open>openelex/us/md/transform/__init__.py\<close> is Python 2. Strings are
  modelled as \<^typ>\<open>string\<close>; \<^verbatim>\<open>str.lower\<close> folds the letters A to Z and leaves every other
  character alone. A value whose Python type is not fixed by the code (the winner marker,
  the value returned by the geographic-id function) is a \<open>pyval\<close>.
\<close>

datatype pyval = PyNone | PyStr string | PyInt int | PyTuple "pyval list"

datatype error =
    DoesNotExist
  | MultipleObjectsReturned
  | AssertionError
  | ValueError
  | AttributeError

definition lower_char :: "char \<Rightarrow> char" where
  "lower_char c =
     (case map_of (zip ''ABCDEFGHIJKLMNOPQRSTUVWXYZ'' ''abcdefghijklmnopqrstuvwxyz'') c of
        Some l \<Rightarrow> l
      | None \<Rightarrow> c)"

definition lower :: "string \<Rightarrow> string" where
  "lower s = map lower_char s"

text \<open>\<^verbatim>\<open>sub in s\<close> on strings: \<open>sub\<close> occurs in \<open>s\<close> as a contiguous block.\<close>

fun py_in :: "string \<Rightarrow> string \<Rightarrow> bool" where
  "py_in sub [] = (sub = [])"
| "py_in sub (c # cs) = (prefix sub (c # cs) \<or> py_in sub cs)"

text \<open>
  \<^verbatim>\<open>s.replace(old, new)\<close>: every occurrence of \<open>old\<close>, found scanning from the left and
  never overlapping the previous one, is replaced by \<open>new\<close>.
\<close>

function py_replace :: "string \<Rightarrow> string \<Rightarrow> string \<Rightarrow> string" where
  "py_replace old new [] = (if old = [] then new else [])"
| "py_replace old new (c # cs) =
     (if old = [] then new @ c # py_replace old new cs
      else if prefix old (c # cs) then new @ py_replace old new (drop (length old) (c # cs))
      else c # py_replace old new cs)"
  by pat_completeness auto
termination
  by (relation "measure (\<lambda>(old, new, s). length s)") auto

text \<open>\<^verbatim>\<open>sep.join(bits)\<close> on a list of strings.\<close>

fun py_join :: "string \<Rightarrow> string list \<Rightarrow> string" where
  "py_join sep [] = []"
| "py_join sep [b] = b"
| "py_join sep (b # bs) = b @ sep @ py_join sep bs"

text \<open>Truthiness of an optional string: \<^verbatim>\<open>None\<close> and \<^verbatim>\<open>''\<close> are falsy.\<close>

definition truthy :: "string option \<Rightarrow> bool" where
  "truthy v = (case v of None \<Rightarrow> False | Some s \<Rightarrow> s \<noteq> [])"

record datetime =
  year :: int
  month :: int
  day :: int
  hour :: int
  minute :: int
  second :: int
  microsecond :: int

fun lex_le :: "int list \<Rightarrow> int list \<Rightarrow> bool" where
  "lex_le [] ys = True"
| "lex_le (x # xs) [] = False"
| "lex_le (x # xs) (y # ys) = (x < y \<or> (x = y \<and> lex_le xs ys))"

definition datetime_parts :: "datetime \<Rightarrow> int list" where
  "datetime_parts d = [year d, month d, day d, hour d, minute d, second d, microsecond d]"

text \<open>\<^verbatim>\<open>a >= b\<close> on datetimes compares the components from the year down.\<close>

definition datetime_ge :: "datetime \<Rightarrow> datetime \<Rightarrow> bool" where
  "datetime_ge a b = lex_le (datetime_parts b) (datetime_parts a)"

text \<open>\<^verbatim>\<open>datetime(y, m, d)\<close>: midnight of the given day.\<close>

definition datetime3 :: "int \<Rightarrow> int \<Rightarrow> int \<Rightarrow> datetime" where
  "datetime3 y m d =
     \<lparr>year = y, month = m, day = d, hour = 0, minute = 0, second = 0, microsecond = 0\<rparr>"

section \<open>The data model\<close>

text \<open>
  Modelled from the spec: the document classes of \<^verbatim>\<open>openelex.models\<close> (RawResult, Office,
  Party, Contest, Candidate, Result) are not part of the sources. A RawResult carries the
  fields the spec lists. The fields the code tests for truthiness before use (district,
  party, primary_party, primary_type, the write-in marker) are optional strings, the
  other text fields are strings.
\<close>

record raw_result =
  source :: string
  election_id :: string
  state :: string
  start_date :: datetime
  end_date :: datetime
  election_type :: string
  primary_type :: "string option"
  result_type :: string
  special :: bool
  office :: string
  district :: "string option"
  full_name :: string
  given_name :: string
  family_name :: string
  additional_name :: string
  candidate_slug :: string
  contest_slug :: string
  party :: "string option"
  primary_party :: "string option"
  reporting_level :: string
  jurisdiction :: string
  county_ocd_id :: string
  votes :: int
  total_votes :: int
  vote_breakdowns :: "(string \<times> int) list"
  winner :: pyval
  write_in :: "string option"

text \<open>
  A stored document is a row: its position in the collection, which is its identity, and
  its fields. A reference to a document is the identity of its row.
\<close>

type_synonym 'a row = "nat \<times> 'a"

record office_doc =
  o_state :: string
  o_name :: string
  o_district :: "string option"
  o_key :: string

record party_doc =
  abbrev :: string

text \<open>
  The same record serves as the field dictionary passed to \<^verbatim>\<open>Contest(**fields)\<close>, as the
  stored document, and as the keyword arguments of a query: an optional field that is
  \<open>None\<close> is a key the dictionary does not have.
\<close>

record contest =
  c_source :: "string option"
  c_election_id :: string
  c_state :: string
  c_start_date :: datetime
  c_end_date :: datetime
  c_election_type :: string
  c_primary_type :: "string option"
  c_result_type :: string
  c_special :: bool
  c_office :: nat
  c_primary_party :: "nat option"
  c_created :: "datetime option"
  c_updated :: "datetime option"

record candidate =
  cand_source :: string
  cand_election_id :: string
  cand_state :: string
  cand_full_name :: string
  cand_given_name :: "string option"
  cand_family_name :: "string option"
  cand_additional_name :: "string option"
  cand_suffix :: "string option"
  cand_contest :: "nat option"
  cand_flags :: "string list"

record result =
  res_source :: string
  res_election_id :: string
  res_state :: string
  res_reporting_level :: string
  res_jurisdiction :: string
  res_votes :: int
  res_total_votes :: int
  res_vote_breakdowns :: "(string \<times> int) list"
  res_candidate :: nat
  res_contest :: "nat option"
  res_raw_result :: raw_result
  res_party :: "string option"
  res_winner :: bool
  res_write_in :: bool
  res_ocd_id :: pyval

record db =
  db_raw_results :: "raw_result list"
  db_offices :: "office_doc list"
  db_parties :: "party_doc list"
  db_contests :: "contest list"
  db_candidates :: "candidate list"
  db_results :: "result list"

text \<open>The two module-level caches, which outlive a pass.\<close>

record caches =
  office_cache :: "string \<rightharpoonup> office_doc row"
  party_cache :: "string \<rightharpoonup> party_doc row"

text \<open>
  Modelled from the spec: the store collaborator's \<^verbatim>\<open>get(fields)\<close> returns the one document
  that matches the query, and fails when there is none (or, the query being ambiguous,
  more than one).
\<close>

definition objects_get :: "('a \<Rightarrow> bool) \<Rightarrow> 'a list \<Rightarrow> error + 'a row" where
  "objects_get P xs =
     (case filter (\<lambda>r. P (snd r)) (enumerate 0 xs) of
        [] \<Rightarrow> Inl DoesNotExist
      | [r] \<Rightarrow> Inr r
      | _ \<Rightarrow> Inl MultipleObjectsReturned)"

text \<open>A keyword of a query that is absent constrains nothing.\<close>

definition opt_matches :: "'a option \<Rightarrow> 'a option \<Rightarrow> bool" where
  "opt_matches q v = (case q of None \<Rightarrow> True | Some x \<Rightarrow> v = Some x)"

section \<open>Field normalizer\<close>

definition PARTY_MAP :: "(string \<times> string) list" where
  "PARTY_MAP =
     [(''BOT'', ''UNF''),
      (''Democratic'', ''DEM''),
      (''Republican'', ''REP''),
      (''Libertarian'', ''LIB''),
      (''Green'', ''GRN''),
      (''Unaffiliated'', ''UNF'')]"

definition district_offices :: "string list" where
  "district_offices =
     [''U.S. House of Representatives'', ''State Senate'', ''House of Delegates'']"

definition clean_office :: "string \<Rightarrow> string" where
  "clean_office off =
     (let lc_office = lower off in
      if py_in ''president'' lc_office then ''President''
      else if py_in ''u.s. senat'' lc_office then ''U.S. Senate''
      else if py_in ''congress'' lc_office then ''U.S. House of Representatives''
      else if py_in ''state senat'' lc_office then ''State Senate''
      else if py_in ''governor'' lc_office then ''Governor''
      else off)"

definition clean_party :: "string \<Rightarrow> string option" where
  "clean_party p =
     (if p = ''Both Parties'' then None
      else case map_of PARTY_MAP p of Some a \<Rightarrow> Some a | None \<Rightarrow> Some p)"

definition strip_leading_zeros :: "string \<Rightarrow> string" where
  "strip_leading_zeros val = dropWhile (\<lambda>c. c = CHR ''0'') val"

text \<open>
  \<^verbatim>\<open>_get_ocd_id\<close>. The county branch of the source ends in a comma,
  \<^verbatim>\<open>return "ocd-division/country:us/state:md/county:%s" % clean_jurisdiction,\<close>
  so it returns a tuple of one string; the other branches return a string or \<^verbatim>\<open>None\<close>.
\<close>

definition get_ocd_id :: "raw_result \<Rightarrow> pyval" where
  "get_ocd_id raw =
     (let clean_jurisdiction = strip_leading_zeros (jurisdiction raw) in
      if reporting_level raw = ''county'' then
        PyTuple [PyStr (''ocd-division/country:us/state:md/county:'' @ clean_jurisdiction)]
      else if reporting_level raw = ''state_legislative'' then
        PyStr (''ocd-division/country:us/state:md/sldl:'' @ clean_jurisdiction)
      else if reporting_level raw = ''precinct'' then
        PyStr (county_ocd_id raw @ ''/precinct:'' @ clean_jurisdiction)
      else PyNone)"

definition parse_winner :: "raw_result \<Rightarrow> bool" where
  "parse_winner raw =
     (if winner raw = PyStr ''Y'' then True
      else if winner raw = PyInt 1 then True
      else False)"

definition parse_write_in :: "raw_result \<Rightarrow> bool" where
  "parse_write_in raw =
     (if write_in raw = Some ''Y'' then True
      else if family_name raw = ''zz998'' then True
      else False)"

section \<open>Reference resolver\<close>

record office_query =
  q_state :: string
  q_name :: string
  q_district :: "string option"

text \<open>
  The query dictionary that \<^verbatim>\<open>_get_office\<close> builds before it looks anything up.
  \<^verbatim>\<open>_strip_leading_zeros(None)\<close> raises \<^verbatim>\<open>AttributeError\<close>.
\<close>

definition office_query_of :: "raw_result \<Rightarrow> error + office_query" where
  "office_query_of raw =
     (let name = clean_office (office raw);
          st = (if name = ''President'' then ''US'' else ''MD'')
      in if name \<in> set district_offices then
           (case district raw of
              None \<Rightarrow> Inl AttributeError
            | Some d \<Rightarrow>
                Inr \<lparr>q_state = st, q_name = name, q_district = Some (strip_leading_zeros d)\<rparr>)
         else Inr \<lparr>q_state = st, q_name = name, q_district = None\<rparr>)"

definition office_matches :: "office_query \<Rightarrow> office_doc \<Rightarrow> bool" where
  "office_matches q d =
     (o_state d = q_state q \<and> o_name d = q_name q \<and> opt_matches (q_district q) (o_district d))"

text \<open>
  \<^verbatim>\<open>_get_office\<close>. \<^verbatim>\<open>Office.make_key\<close> is not part of the sources and is the parameter
  \<open>make_key\<close>.
\<close>

definition get_office ::
  "(office_query \<Rightarrow> string) \<Rightarrow> db \<Rightarrow> caches \<Rightarrow> raw_result \<Rightarrow> error + (office_doc row \<times> caches)"
where
  "get_office make_key d cs raw =
     (case office_query_of raw of
        Inl e \<Rightarrow> Inl e
      | Inr q \<Rightarrow>
          (let key = make_key q in
           case office_cache cs key of
             Some off \<Rightarrow> Inr (off, cs)
           | None \<Rightarrow>
               (case objects_get (office_matches q) (db_offices d) of
                  Inl e \<Rightarrow> Inl e
                | Inr off \<Rightarrow>
                    if key \<noteq> o_key (snd off) then Inl AssertionError
                    else Inr (off, cs\<lparr>office_cache := (office_cache cs)(key \<mapsto> off)\<rparr>))))"

text \<open>\<^verbatim>\<open>_get_party(raw_result, attr)\<close>; \<open>attr\<close> is the field selector.\<close>

definition get_party ::
  "db \<Rightarrow> caches \<Rightarrow> raw_result \<Rightarrow> (raw_result \<Rightarrow> string option) \<Rightarrow>
     error + (party_doc row option \<times> caches)"
where
  "get_party d cs raw attr =
     (if \<not> truthy (attr raw) then Inr (None, cs)
      else case attr raw of
        None \<Rightarrow> Inr (None, cs)
      | Some p \<Rightarrow>
          (let clean_abbrev = clean_party p in
           if \<not> truthy clean_abbrev then Inr (None, cs)
           else case clean_abbrev of
             None \<Rightarrow> Inr (None, cs)
           | Some a \<Rightarrow>
               (case party_cache cs a of
                  Some pty \<Rightarrow> Inr (Some pty, cs)
                | None \<Rightarrow>
                    (case objects_get (\<lambda>x. abbrev x = a) (db_parties d) of
                       Inl e \<Rightarrow> Inl e
                     | Inr pty \<Rightarrow>
                         Inr (Some pty, cs\<lparr>party_cache := (party_cache cs)(a \<mapsto> pty)\<rparr>)))))"

section \<open>Loader queries, contest fields and contest key\<close>

definition get_raw_results_after_2000 :: "db \<Rightarrow> raw_result list" where
  "get_raw_results_after_2000 d =
     filter (\<lambda>r. state r = ''MD'' \<and> datetime_ge (end_date r) (datetime3 2002 1 1))
       (db_raw_results d)"

text \<open>The query of \<^verbatim>\<open>get_results_after_2000\<close>, and the Results it selects.\<close>

definition results_after_2000_query :: "db \<Rightarrow> result \<Rightarrow> bool" where
  "results_after_2000_query d =
     (let election_ids = remdups (map election_id (get_raw_results_after_2000 d))
      in (\<lambda>r. res_election_id r \<in> set election_ids))"

definition get_results_after_2000 :: "db \<Rightarrow> result list" where
  "get_results_after_2000 d = filter (results_after_2000_query d) (db_results d)"

definition get_contest_fields ::
  "(office_query \<Rightarrow> string) \<Rightarrow> db \<Rightarrow> caches \<Rightarrow> raw_result \<Rightarrow> error + (contest \<times> caches)"
where
  "get_contest_fields make_key d cs raw =
     (case get_office make_key d cs raw of
        Inl e \<Rightarrow> Inl e
      | Inr (off, cs1) \<Rightarrow>
          (case get_party d cs1 raw primary_party of
             Inl e \<Rightarrow> Inl e
           | Inr (pty, cs2) \<Rightarrow>
               Inr (\<lparr>c_source = Some (source raw),
                     c_election_id = election_id raw,
                     c_state = state raw,
                     c_start_date = start_date raw,
                     c_end_date = end_date raw,
                     c_election_type = election_type raw,
                     c_primary_type =
                       (if \<not> truthy (primary_type raw) then None else primary_type raw),
                     c_result_type = result_type raw,
                     c_special = special raw,
                     c_office = fst off,
                     c_primary_party = map_option fst pty,
                     c_created = None,
                     c_updated = None\<rparr>, cs2)))"

definition contest_key :: "raw_result \<Rightarrow> string \<times> string" where
  "contest_key raw =
     (let slug = contest_slug raw;
          slug = (if clean_office (office raw) \<notin> set district_offices then
                    (case district raw of
                       None \<Rightarrow> slug
                     | Some dist \<Rightarrow>
                         if dist = [] then slug
                         else py_replace (''-'' @ lower dist) [] slug)
                  else slug)
      in (election_id raw, slug))"

section \<open>Pass 1: contests\<close>

text \<open>
  The loop of \<^verbatim>\<open>create_unique_contests_after_2000\<close>. \<open>clock n\<close> is what the \<open>n\<close>-th call
  of \<^verbatim>\<open>datetime.now()\<close> in the pass returns; one call is made per contest built.
\<close>

fun contests_loop ::
  "(office_query \<Rightarrow> string) \<Rightarrow> (nat \<Rightarrow> datetime) \<Rightarrow> db \<Rightarrow> raw_result list \<Rightarrow> caches \<Rightarrow>
     contest list \<Rightarrow> (string \<times> string) set \<Rightarrow>
     error + (caches \<times> contest list \<times> (string \<times> string) set)"
where
  "contests_loop make_key clock d [] cs contests seen = Inr (cs, contests, seen)"
| "contests_loop make_key clock d (rr # rrs) cs contests seen =
     (let key = contest_key rr in
      if key \<notin> seen then
        (case get_contest_fields make_key d cs rr of
           Inl e \<Rightarrow> Inl e
         | Inr (flds, cs') \<Rightarrow>
             (let now = clock (length contests);
                  contest = flds\<lparr>c_created := Some now, c_updated := Some now\<rparr>
              in contests_loop make_key clock d rrs cs' (contests @ [contest])
                   (insert key seen)))
      else contests_loop make_key clock d rrs cs contests seen)"

text \<open>
  The pass returns the store after the bulk insert, the caches, and the count it prints.
\<close>

definition create_unique_contests_after_2000 ::
  "(office_query \<Rightarrow> string) \<Rightarrow> (nat \<Rightarrow> datetime) \<Rightarrow> db \<times> caches \<Rightarrow>
     error + (db \<times> caches \<times> nat)"
where
  "create_unique_contests_after_2000 make_key clock st =
     (case st of (d, cs) \<Rightarrow>
        (case contests_loop make_key clock d (get_raw_results_after_2000 d) cs [] {} of
           Inl e \<Rightarrow> Inl e
         | Inr (cs', new, seen) \<Rightarrow>
             Inr (d\<lparr>db_contests := db_contests d @ new\<rparr>, cs', length new)))"

section \<open>Candidate fields\<close>

text \<open>
  The same record serves as the field dictionary of a Candidate, as the stored document
  and as a query; an optional field that is \<open>None\<close> is a key that was deleted from, or
  never put into, the dictionary.

  The null-name marker is the Python literal \<^verbatim>\<open>'\\N'\<close>: a backslash followed by N.
\<close>

definition null_name :: string where
  "null_name = [CHR 0x5C, CHR ''N'']"

definition get_candidate_fields_2002 :: "raw_result \<Rightarrow> candidate" where
  "get_candidate_fields_2002 raw =
     (if family_name raw = ''zz998'' then
        \<lparr>cand_source = source raw, cand_election_id = election_id raw,
         cand_state = state raw,
         cand_full_name = ''Other Write-Ins'',
         cand_given_name = None, cand_family_name = None, cand_additional_name = None,
         cand_suffix = None, cand_contest = None, cand_flags = []\<rparr>
      else
        (let bits = [given_name raw];
             bits = (if additional_name raw = null_name then bits
                     else bits @ [additional_name raw]);
             bits = bits @ [family_name raw]
         in \<lparr>cand_source = source raw, cand_election_id = election_id raw,
             cand_state = state raw,
             cand_full_name = py_join '' '' bits,
             cand_given_name = Some (given_name raw),
             cand_family_name = Some (family_name raw),
             cand_additional_name =
               (if additional_name raw = null_name then None
                else Some (additional_name raw)),
             cand_suffix = None, cand_contest = None, cand_flags = []\<rparr>))"

text \<open>
  The name-decomposition collaborator (\<^verbatim>\<open>nameparser.HumanName\<close>) is the parameter
  \<open>HumanName\<close>, a function from the free-text name to its parts.
\<close>

record name_parts =
  np_first :: string
  np_middle :: string
  np_last :: string
  np_suffix :: string

definition get_candidate_fields_after_2000 ::
  "(string \<Rightarrow> name_parts) \<Rightarrow> raw_result \<Rightarrow> candidate"
where
  "get_candidate_fields_after_2000 HumanName raw =
     (if full_name raw = ''Other Write-Ins'' then
        \<lparr>cand_source = source raw, cand_election_id = election_id raw,
         cand_state = state raw,
         cand_full_name = full_name raw,
         cand_given_name = Some (given_name raw),
         cand_family_name = Some (family_name raw),
         cand_additional_name = Some (additional_name raw),
         cand_suffix = None, cand_contest = None, cand_flags = []\<rparr>
      else
        (let name = HumanName (full_name raw)
         in \<lparr>cand_source = source raw, cand_election_id = election_id raw,
             cand_state = state raw,
             cand_full_name = full_name raw,
             cand_given_name = Some (np_first name),
             cand_family_name = Some (np_last name),
             cand_additional_name = Some (np_middle name),
             cand_suffix = Some (np_suffix name),
             cand_contest = None, cand_flags = []\<rparr>))"

definition get_candidate_fields ::
  "(string \<Rightarrow> name_parts) \<Rightarrow> raw_result \<Rightarrow> error + candidate"
where
  "get_candidate_fields HumanName raw =
     (let y = year (end_date raw) in
      if y = 2002 then Inr (get_candidate_fields_2002 raw)
      else if y \<ge> 2003 then Inr (get_candidate_fields_after_2000 HumanName raw)
      else Inl ValueError)"

section \<open>Pass 2: candidates\<close>

definition contest_matches :: "contest \<Rightarrow> contest \<Rightarrow> bool" where
  "contest_matches q c =
     (opt_matches (c_source q) (c_source c) \<and>
      c_election_id c = c_election_id q \<and>
      c_state c = c_state q \<and>
      c_start_date c = c_start_date q \<and>
      c_end_date c = c_end_date q \<and>
      c_election_type c = c_election_type q \<and>
      opt_matches (c_primary_type q) (c_primary_type c) \<and>
      c_result_type c = c_result_type q \<and>
      c_special c = c_special q \<and>
      c_office c = c_office q \<and>
      c_primary_party c = c_primary_party q \<and>
      opt_matches (c_created q) (c_created c) \<and>
      opt_matches (c_updated q) (c_updated c))"

text \<open>The key \<^verbatim>\<open>"%s-%s" % (raw_result.election_id, raw_result.contest_slug)\<close>.\<close>

definition contest_cache_key :: "raw_result \<Rightarrow> string" where
  "contest_cache_key raw = election_id raw @ ''-'' @ contest_slug raw"

definition cached_get_contest ::
  "(office_query \<Rightarrow> string) \<Rightarrow> db \<Rightarrow> caches \<Rightarrow> (string \<rightharpoonup> contest row) \<Rightarrow> raw_result \<Rightarrow>
     error + (contest row \<times> caches \<times> (string \<rightharpoonup> contest row))"
where
  "cached_get_contest make_key d cs cache raw =
     (let key = contest_cache_key raw in
      case cache key of
        Some c \<Rightarrow> Inr (c, cs, cache)
      | None \<Rightarrow>
          (case get_contest_fields make_key d cs raw of
             Inl e \<Rightarrow> Inl e
           | Inr (flds, cs') \<Rightarrow>
               (case objects_get (contest_matches (flds\<lparr>c_source := None\<rparr>)) (db_contests d) of
                  Inl e \<Rightarrow> Inl e
                | Inr c \<Rightarrow> Inr (c, cs', cache(key \<mapsto> c)))))"

text \<open>
  The loop of \<^verbatim>\<open>create_unique_candidates_after_2000\<close>. The warning it logs for an
  unexpected "other" in a name changes nothing and is left out.
\<close>

fun candidates_loop ::
  "(office_query \<Rightarrow> string) \<Rightarrow> (string \<Rightarrow> name_parts) \<Rightarrow> db \<Rightarrow> raw_result list \<Rightarrow> caches \<Rightarrow>
     (string \<rightharpoonup> contest row) \<Rightarrow> candidate list \<Rightarrow> (string \<times> string) set \<Rightarrow>
     error + (caches \<times> (string \<rightharpoonup> contest row) \<times> candidate list \<times> (string \<times> string) set)"
where
  "candidates_loop make_key HumanName d [] cs contest_cache candidates seen =
     Inr (cs, contest_cache, candidates, seen)"
| "candidates_loop make_key HumanName d (rr # rrs) cs contest_cache candidates seen =
     (let key = (election_id rr, candidate_slug rr) in
      if key \<notin> seen then
        (case get_candidate_fields HumanName rr of
           Inl e \<Rightarrow> Inl e
         | Inr flds \<Rightarrow>
             (case cached_get_contest make_key d cs contest_cache rr of
                Inl e \<Rightarrow> Inl e
              | Inr (c, cs', contest_cache') \<Rightarrow>
                  (let flds = flds\<lparr>cand_contest := Some (fst c)\<rparr>;
                       flds =
                         (if py_in ''other'' (lower (cand_full_name flds)) then
                            (if cand_full_name flds = ''Other Write-Ins''
                             then flds\<lparr>cand_flags := [''aggregate'']\<rparr>
                             else flds)
                          else flds)
                   in candidates_loop make_key HumanName d rrs cs' contest_cache'
                        (candidates @ [flds]) (insert key seen))))
      else candidates_loop make_key HumanName d rrs cs contest_cache candidates seen)"

definition create_unique_candidates_after_2000 ::
  "(office_query \<Rightarrow> string) \<Rightarrow> (string \<Rightarrow> name_parts) \<Rightarrow> db \<times> caches \<Rightarrow>
     error + (db \<times> caches \<times> nat)"
where
  "create_unique_candidates_after_2000 make_key HumanName st =
     (case st of (d, cs) \<Rightarrow>
        (case candidates_loop make_key HumanName d (get_raw_results_after_2000 d) cs
                Map.empty [] {} of
           Inl e \<Rightarrow> Inl e
         | Inr (cs', contest_cache, new, seen) \<Rightarrow>
             Inr (d\<lparr>db_candidates := db_candidates d @ new\<rparr>, cs', length new)))"

section \<open>Pass 3: results\<close>

text \<open>
  A Candidate query built from \<^verbatim>\<open>get_candidate_fields\<close> has neither a contest nor a
  flags key.
\<close>

definition candidate_matches :: "candidate \<Rightarrow> candidate \<Rightarrow> bool" where
  "candidate_matches q c =
     (cand_source c = cand_source q \<and>
      cand_election_id c = cand_election_id q \<and>
      cand_state c = cand_state q \<and>
      cand_full_name c = cand_full_name q \<and>
      opt_matches (cand_given_name q) (cand_given_name c) \<and>
      opt_matches (cand_family_name q) (cand_family_name c) \<and>
      opt_matches (cand_additional_name q) (cand_additional_name c) \<and>
      opt_matches (cand_suffix q) (cand_suffix c) \<and>
      opt_matches (cand_contest q) (cand_contest c))"

definition candidate_cache_key :: "raw_result \<Rightarrow> string" where
  "candidate_cache_key raw = election_id raw @ ''-'' @ candidate_slug raw"

definition cached_get_candidate ::
  "(string \<Rightarrow> name_parts) \<Rightarrow> db \<Rightarrow> (string \<rightharpoonup> candidate row) \<Rightarrow> raw_result \<Rightarrow>
     error + (candidate row \<times> (string \<rightharpoonup> candidate row))"
where
  "cached_get_candidate HumanName d cache raw =
     (let key = candidate_cache_key raw in
      case cache key of
        Some c \<Rightarrow> Inr (c, cache)
      | None \<Rightarrow>
          (case get_candidate_fields HumanName raw of
             Inl e \<Rightarrow> Inl e
           | Inr flds \<Rightarrow>
               (case objects_get (candidate_matches flds) (db_candidates d) of
                  Inl e \<Rightarrow> Inl e
                | Inr c \<Rightarrow> Inr (c, cache(key \<mapsto> c)))))"

text \<open>
  The body of the loop of \<^verbatim>\<open>create_unique_results_after_2000\<close> up to
  \<^verbatim>\<open>Result(**fields)\<close>: the Result built for one raw record.
\<close>

definition result_of ::
  "(string \<Rightarrow> name_parts) \<Rightarrow> db \<Rightarrow> caches \<Rightarrow> (string \<rightharpoonup> candidate row) \<Rightarrow> raw_result \<Rightarrow>
     error + (result \<times> caches \<times> (string \<rightharpoonup> candidate row))"
where
  "result_of HumanName d cs candidate_cache rr =
     (case cached_get_candidate HumanName d candidate_cache rr of
        Inl e \<Rightarrow> Inl e
      | Inr (cand, candidate_cache') \<Rightarrow>
          (case get_party d cs rr party of
             Inl e \<Rightarrow> Inl e
           | Inr (pty, cs') \<Rightarrow>
               Inr (\<lparr>res_source = source rr,
                     res_election_id = election_id rr,
                     res_state = state rr,
                     res_reporting_level = reporting_level rr,
                     res_jurisdiction = strip_leading_zeros (jurisdiction rr),
                     res_votes = votes rr,
                     res_total_votes = total_votes rr,
                     res_vote_breakdowns = vote_breakdowns rr,
                     res_candidate = fst cand,
                     res_contest = cand_contest (snd cand),
                     res_raw_result = rr,
                     res_party = map_option (\<lambda>p. abbrev (snd p)) pty,
                     res_winner = parse_winner rr,
                     res_write_in = parse_write_in rr,
                     res_ocd_id = get_ocd_id rr\<rparr>, cs', candidate_cache')))"

definition bufsiz :: nat where
  "bufsiz = 1000"

text \<open>
  The loop proper: the store is written whenever the buffer reaches \<open>bufsiz\<close> Results.
\<close>

fun results_loop ::
  "(string \<Rightarrow> name_parts) \<Rightarrow> raw_result list \<Rightarrow> db \<Rightarrow> caches \<Rightarrow> (string \<rightharpoonup> candidate row) \<Rightarrow>
     result list \<Rightarrow> nat \<Rightarrow>
     error + (db \<times> caches \<times> (string \<rightharpoonup> candidate row) \<times> result list \<times> nat)"
where
  "results_loop HumanName [] d cs candidate_cache results num_created =
     Inr (d, cs, candidate_cache, results, num_created)"
| "results_loop HumanName (rr # rrs) d cs candidate_cache results num_created =
     (case result_of HumanName d cs candidate_cache rr of
        Inl e \<Rightarrow> Inl e
      | Inr (res, cs', candidate_cache') \<Rightarrow>
          (let results = results @ [res] in
           if length results \<ge> bufsiz then
             results_loop HumanName rrs (d\<lparr>db_results := db_results d @ results\<rparr>) cs'
               candidate_cache' [] (num_created + length results)
           else results_loop HumanName rrs d cs' candidate_cache' results num_created))"

definition create_unique_results_after_2000 ::
  "(string \<Rightarrow> name_parts) \<Rightarrow> db \<times> caches \<Rightarrow> error + (db \<times> caches \<times> nat)"
where
  "create_unique_results_after_2000 HumanName st =
     (case st of (d, cs) \<Rightarrow>
        (let d1 = d\<lparr>db_results :=
                     filter (\<lambda>r. \<not> results_after_2000_query d r) (db_results d)\<rparr>
         in case results_loop HumanName (get_raw_results_after_2000 d1) d1 cs
                   Map.empty [] 0 of
              Inl e \<Rightarrow> Inl e
            | Inr (d2, cs', candidate_cache, results, num_created) \<Rightarrow>
                if length results \<noteq> 0 then
                  Inr (d2\<lparr>db_results := db_results d2 @ results\<rparr>, cs',
                       num_created + length results)
                else Inr (d2, cs', num_created)))"

section \<open>Running the registered passes in order\<close>

text \<open>
  The module registers the three passes in the order contests, candidates, results; a
  pass that raises ends the run.
\<close>

definition and_then ::
  "error + (db \<times> caches \<times> nat) \<Rightarrow> (db \<times> caches \<Rightarrow> error + (db \<times> caches \<times> nat)) \<Rightarrow>
     error + (db \<times> caches \<times> nat)"
where
  "and_then r pass = (case r of Inl e \<Rightarrow> Inl e | Inr (d, cs, n) \<Rightarrow> pass (d, cs))"

section \<open>The specification's reading of the contest key and of Pass 1\<close>

text \<open>
  The contest key as the specification words it: when the cleaned office is not a
  district office and the district is non-empty, a trailing \<open>-district\<close> is stripped from
  the slug, compared without regard to case.
\<close>

definition spec_contest_key :: "raw_result \<Rightarrow> string \<times> string" where
  "spec_contest_key raw =
     (let slug = contest_slug raw in
      (election_id raw,
       if clean_office (office raw) \<notin> set district_offices \<and> truthy (district raw) then
         (let suf = ''-'' @ (case district raw of None \<Rightarrow> [] | Some dist \<Rightarrow> dist) in
          if suffix (lower suf) (lower slug) then take (length slug - length suf) slug
          else slug)
       else slug))"

text \<open>
  The records that are the first, in stream order, to bear their contest key: keep a
  record, and drop from what follows every record with its key.
\<close>

fun first_of_key :: "raw_result list \<Rightarrow> raw_result list" where
  "first_of_key [] = []"
| "first_of_key (r # rs) =
     r # filter (\<lambda>x. contest_key x \<noteq> contest_key r) (first_of_key rs)"

text \<open>
  One Contest built for each record of a list, in order: the contest fields of the record,
  stamped with the time of building. \<open>n\<close> counts the contests built before.
\<close>

fun build_contests ::
  "(office_query \<Rightarrow> string) \<Rightarrow> (nat \<Rightarrow> datetime) \<Rightarrow> db \<Rightarrow> raw_result list \<Rightarrow> caches \<Rightarrow> nat \<Rightarrow>
     error + (caches \<times> contest list)"
where
  "build_contests make_key clock d [] cs n = Inr (cs, [])"
| "build_contests make_key clock d (f # fs) cs n =
     (case get_contest_fields make_key d cs f of
        Inl e \<Rightarrow> Inl e
      | Inr (flds, cs') \<Rightarrow>
          (case build_contests make_key clock d fs cs' (Suc n) of
             Inl e \<Rightarrow> Inl e
           | Inr (cs'', rest) \<Rightarrow>
               Inr (cs'',
                    flds\<lparr>c_created := Some (clock n), c_updated := Some (clock n)\<rparr> # rest)))"

section \<open>The specification's reading of Pass 2 and Pass 3\<close>

text \<open>
  One Result for each record of a list, in order, with no deduplication; the caches are
  threaded through as the loop of Pass 3 threads them.
\<close>

fun results_for ::
  "(string \<Rightarrow> name_parts) \<Rightarrow> db \<Rightarrow> raw_result list \<Rightarrow> caches \<Rightarrow> (string \<rightharpoonup> candidate row) \<Rightarrow>
     error + (result list \<times> caches \<times> (string \<rightharpoonup> candidate row))"
where
  "results_for HumanName d [] cs cache = Inr ([], cs, cache)"
| "results_for HumanName d (rr # rrs) cs cache =
     (case result_of HumanName d cs cache rr of
        Inl e \<Rightarrow> Inl e
      | Inr (res, cs', cache') \<Rightarrow>
          (case results_for HumanName d rrs cs' cache' of
             Inl e \<Rightarrow> Inl e
           | Inr (rest, cs'', cache'') \<Rightarrow> Inr (res # rest, cs'', cache'')))"

text \<open>
  Two raw records agree on everything the contest fields are derived from, the source
  aside: the copied fields, the primary type as far as it is kept, the office query and
  the primary party.
\<close>

definition same_contest_fields :: "raw_result \<Rightarrow> raw_result \<Rightarrow> bool" where
  "same_contest_fields r f =
     (election_id r = election_id f \<and>
      state r = state f \<and>
      start_date r = start_date f \<and>
      end_date r = end_date f \<and>
      election_type r = election_type f \<and>
      (if \<not> truthy (primary_type r) then None else primary_type r) =
        (if \<not> truthy (primary_type f) then None else primary_type f) \<and>
      result_type r = result_type f \<and>
      special r = special f \<and>
      office_query_of r = office_query_of f \<and>
      primary_party r = primary_party f)"

text \<open>The caches only grow: every entry of the first is an entry of the second.\<close>

definition caches_le :: "caches \<Rightarrow> caches \<Rightarrow> bool" where
  "caches_le cs cs' =
     (office_cache cs \<subseteq>\<^sub>m office_cache cs' \<and> party_cache cs \<subseteq>\<^sub>m party_cache cs')"

text \<open>Every entry of a per-run cache is a row of the collection it was read from.\<close>

definition cache_ok :: "'a list \<Rightarrow> (string \<rightharpoonup> 'a row) \<Rightarrow> bool" where
  "cache_ok xs cache =
     (\<forall>k row. cache k = Some row \<longrightarrow> fst row < length xs \<and> snd row = xs ! fst row)"

section \<open>Sample data\<close>

text \<open>
  Stand-ins for the collaborators that are parameters of the model, and a few raw records
  and stores on which the theorems below are exercised.
\<close>

definition demo_make_key :: "office_query \<Rightarrow> string" where
  "demo_make_key q =
     q_state q @ ''/'' @ q_name q @ ''/'' @ (case q_district q of None \<Rightarrow> [] | Some x \<Rightarrow> x)"

definition demo_HumanName :: "string \<Rightarrow> name_parts" where
  "demo_HumanName s = \<lparr>np_first = [], np_middle = [], np_last = s, np_suffix = []\<rparr>"

definition demo_clock :: "nat \<Rightarrow> datetime" where
  "demo_clock n =
     \<lparr>year = 2014, month = 1, day = 1, hour = 0, minute = 0, second = int n, microsecond = 0\<rparr>"

definition no_caches :: caches where
  "no_caches = \<lparr>office_cache = Map.empty, party_cache = Map.empty\<rparr>"

definition rr_demo :: raw_result where
  "rr_demo =
     \<lparr>source = ''20121106__md__general__county.csv'',
      election_id = ''md-2012-11-06-general'',
      state = ''MD'',
      start_date = datetime3 2012 11 6,
      end_date = datetime3 2012 11 6,
      election_type = ''general'',
      primary_type = None,
      result_type = ''certified'',
      special = False,
      office = ''President - Vice Pres'',
      district = None,
      full_name = ''Barack Obama'',
      given_name = [],
      family_name = [],
      additional_name = [],
      candidate_slug = ''barack-obama'',
      contest_slug = ''president'',
      party = Some ''Democratic'',
      primary_party = None,
      reporting_level = ''county'',
      jurisdiction = ''24'',
      county_ocd_id = ''ocd-division/country:us/state:md/county:24'',
      votes = 100,
      total_votes = 250,
      vote_breakdowns = [],
      winner = PyStr ''Y'',
      write_in = None\<rparr>"

definition rr_judge :: raw_result where
  "rr_judge =
     rr_demo\<lparr>election_id := ''md-2012-04-03-primary'',
             office := ''Judge of the Circuit Court'',
             district := Some ''3'',
             contest_slug := ''judge-of-the-circuit-court-3-dem'',
             primary_party := Some ''Democratic''\<rparr>"

definition rr_president_08 :: raw_result where
  "rr_president_08 =
     rr_demo\<lparr>office := ''President'', district := Some ''08'',
             contest_slug := ''2000-president-08''\<rparr>"

definition rr_write_in_2002 :: raw_result where
  "rr_write_in_2002 =
     rr_demo\<lparr>source := ''20021105__md__general__county.csv'',
             election_id := ''md-2002-11-05-general'',
             start_date := datetime3 2002 11 5,
             end_date := datetime3 2002 11 5,
             office := ''Governor / Lt. Governor'',
             full_name := [],
             given_name := [],
             family_name := ''zz998'',
             additional_name := null_name,
             candidate_slug := ''other-write-ins'',
             contest_slug := ''governor'',
             party := Some ''Both Parties'',
             write_in := None\<rparr>"

definition office_governor :: office_doc where
  "office_governor =
     \<lparr>o_state = ''MD'', o_name = ''Governor'', o_district = None, o_key = ''MD/Governor/''\<rparr>"

definition db_write_in_2002 :: db where
  "db_write_in_2002 =
     \<lparr>db_raw_results = [rr_write_in_2002],
      db_offices = [office_governor],
      db_parties = [],
      db_contests = [],
      db_candidates = [],
      db_results = []\<rparr>"

definition contest_write_in_2002 :: contest where
  "contest_write_in_2002 =
     \<lparr>c_source = Some ''20021105__md__general__county.csv'',
      c_election_id = ''md-2002-11-05-general'',
      c_state = ''MD'',
      c_start_date = datetime3 2002 11 5,
      c_end_date = datetime3 2002 11 5,
      c_election_type = ''general'',
      c_primary_type = None,
      c_result_type = ''certified'',
      c_special = False,
      c_office = 0,
      c_primary_party = None,
      c_created = Some (demo_clock 0),
      c_updated = Some (demo_clock 0)\<rparr>"

definition caches_write_in_2002 :: caches where
  "caches_write_in_2002 =
     \<lparr>office_cache = [''MD/Governor/'' \<mapsto> (0, office_governor)],
      party_cache = Map.empty\<rparr>"

definition candidate_write_in_2002 :: candidate where
  "candidate_write_in_2002 =
     \<lparr>cand_source = ''20021105__md__general__county.csv'',
      cand_election_id = ''md-2002-11-05-general'',
      cand_state = ''MD'',
      cand_full_name = ''Other Write-Ins'',
      cand_given_name = None, cand_family_name = None, cand_additional_name = None,
      cand_suffix = None, cand_contest = Some 0, cand_flags = [''aggregate'']\<rparr>"

text \<open>
  A store with four records in scope (three of one presidential contest, one of them
  carrying a district in its slug, and a write-in row of 2002), one record out of scope,
  and two Results left by an earlier run.
\<close>

definition rr_romney :: raw_result where
  "rr_romney =
     rr_demo\<lparr>full_name := ''Mitt Romney'', candidate_slug := ''mitt-romney'',
             party := Some ''Republican'', votes := 150, winner := PyStr ''N''\<rparr>"

definition rr_johnson_08 :: raw_result where
  "rr_johnson_08 =
     rr_demo\<lparr>source := ''20121106__md__general__precinct.csv'',
             office := ''President'', district := Some ''08'',
             contest_slug := ''president-08'',
             full_name := ''Gary Johnson'', candidate_slug := ''gary-johnson'',
             party := Some ''Libertarian'', reporting_level := ''precinct'',
             jurisdiction := ''003'', votes := 5, winner := PyStr ''N''\<rparr>"

definition rr_old :: raw_result where
  "rr_old =
     rr_demo\<lparr>election_id := ''md-2000-11-07-general'',
             start_date := datetime3 2000 11 7, end_date := datetime3 2000 11 7\<rparr>"

definition office_president :: office_doc where
  "office_president =
     \<lparr>o_state = ''US'', o_name = ''President'', o_district = None, o_key = ''US/President/''\<rparr>"

definition res_stale :: result where
  "res_stale =
     \<lparr>res_source = ''20121106__md__general__county.csv'',
      res_election_id = ''md-2012-11-06-general'',
      res_state = ''MD'',
      res_reporting_level = ''county'',
      res_jurisdiction = ''24'',
      res_votes = 1,
      res_total_votes = 2,
      res_vote_breakdowns = [],
      res_candidate = 0,
      res_contest = Some 0,
      res_raw_result = rr_demo,
      res_party = None,
      res_winner = False,
      res_write_in = False,
      res_ocd_id = PyNone\<rparr>"

definition res_other :: result where
  "res_other = res_stale\<lparr>res_election_id := ''md-2000-11-07-general''\<rparr>"

definition db_sample :: db where
  "db_sample =
     \<lparr>db_raw_results = [rr_demo, rr_romney, rr_old, rr_johnson_08, rr_write_in_2002],
      db_offices = [office_governor, office_president],
      db_parties = [\<lparr>abbrev = ''DEM''\<rparr>, \<lparr>abbrev = ''REP''\<rparr>, \<lparr>abbrev = ''LIB''\<rparr>],
      db_contests = [],
      db_candidates = [],
      db_results = [res_stale, res_other]\<rparr>"

definition contest_president_2012 :: contest where
  "contest_president_2012 =
     \<lparr>c_source = Some ''20121106__md__general__county.csv'',
      c_election_id = ''md-2012-11-06-general'',
      c_state = ''MD'',
      c_start_date = datetime3 2012 11 6,
      c_end_date = datetime3 2012 11 6,
      c_election_type = ''general'',
      c_primary_type = None,
      c_result_type = ''certified'',
      c_special = False,
      c_office = 1,
      c_primary_party = None,
      c_created = Some (demo_clock 0),
      c_updated = Some (demo_clock 0)\<rparr>"

definition contest_governor_2002 :: contest where
  "contest_governor_2002 =
     contest_write_in_2002\<lparr>c_created := Some (demo_clock 1), c_updated := Some (demo_clock 1)\<rparr>"

definition caches_sample :: caches where
  "caches_sample =
     \<lparr>office_cache =
        [''US/President/'' \<mapsto> (1, office_president),
         ''MD/Governor/'' \<mapsto> (0, office_governor)],
      party_cache = Map.empty\<rparr>"

text \<open>The sample store after Pass 1 and Pass 2.\<close>

definition cand_obama :: candidate where
  "cand_obama =
     \<lparr>cand_source = ''20121106__md__general__county.csv'',
      cand_election_id = ''md-2012-11-06-general'',
      cand_state = ''MD'',
      cand_full_name = ''Barack Obama'',
      cand_given_name = Some [], cand_family_name = Some ''Barack Obama'',
      cand_additional_name = Some [], cand_suffix = Some [],
      cand_contest = Some 0, cand_flags = []\<rparr>"

definition cand_romney :: candidate where
  "cand_romney =
     cand_obama\<lparr>cand_full_name := ''Mitt Romney'', cand_family_name := Some ''Mitt Romney''\<rparr>"

definition cand_johnson :: candidate where
  "cand_johnson =
     cand_obama\<lparr>cand_source := ''20121106__md__general__precinct.csv'',
                cand_full_name := ''Gary Johnson'',
                cand_family_name := Some ''Gary Johnson''\<rparr>"

definition cand_write_in :: candidate where
  "cand_write_in = candidate_write_in_2002\<lparr>cand_contest := Some 1\<rparr>"

definition db_sample_loaded :: db where
  "db_sample_loaded =
     db_sample\<lparr>db_contests := [contest_president_2012, contest_governor_2002],
               db_candidates := [cand_obama, cand_romney, cand_johnson, cand_write_in]\<rparr>"

text \<open>
  Two rows of one judicial primary that share a contest slug; the second carries a
  district and belongs to the other party's primary.
\<close>

definition rr_primary_dem :: raw_result where
  "rr_primary_dem =
     rr_demo\<lparr>election_id := ''md-2012-04-03-primary'',
             start_date := datetime3 2012 4 3, end_date := datetime3 2012 4 3,
             election_type := ''primary'', primary_type := Some ''closed'',
             office := ''Judge of the Circuit Court'', district := None,
             contest_slug := ''judge-of-the-circuit-court-3'',
             primary_party := Some ''Democratic'',
             full_name := ''Ann Adams'', candidate_slug := ''ann-adams''\<rparr>"

definition rr_primary_rep :: raw_result where
  "rr_primary_rep =
     rr_primary_dem\<lparr>district := Some ''3'', primary_party := Some ''Republican'',
                    party := Some ''Republican'',
                    full_name := ''Bob Brown'', candidate_slug := ''bob-brown''\<rparr>"

definition office_judge :: office_doc where
  "office_judge =
     \<lparr>o_state = ''MD'', o_name = ''Judge of the Circuit Court'', o_district = None,
      o_key = ''MD/Judge of the Circuit Court/''\<rparr>"

definition db_clash :: db where
  "db_clash =
     \<lparr>db_raw_results = [rr_primary_dem, rr_primary_rep],
      db_offices = [office_judge],
      db_parties = [\<lparr>abbrev = ''DEM''\<rparr>, \<lparr>abbrev = ''REP''\<rparr>],
      db_contests = [],
      db_candidates = [],
      db_results = []\<rparr>"

text \<open>The per-run contest cache of Pass 2 on the sample store after two records.\<close>

definition contest_cache_sample :: "string \<rightharpoonup> contest row" where
  "contest_cache_sample =
     [''md-2012-11-06-general-president'' \<mapsto> (0, contest_president_2012)]"

section \<open>Evaluation rules\<close>

lemmas model_defs =
  Let_def lower_def lower_char_def truthy_def datetime_ge_def datetime_parts_def datetime3_def
  objects_get_def opt_matches_def PARTY_MAP_def district_offices_def clean_office_def
  clean_party_def strip_leading_zeros_def get_ocd_id_def parse_winner_def parse_write_in_def
  office_query_of_def office_matches_def get_office_def get_party_def
  get_raw_results_after_2000_def results_after_2000_query_def get_results_after_2000_def
  get_contest_fields_def contest_key_def create_unique_contests_after_2000_def
  null_name_def get_candidate_fields_2002_def get_candidate_fields_after_2000_def
  get_candidate_fields_def contest_matches_def contest_cache_key_def cached_get_contest_def
  create_unique_candidates_after_2000_def candidate_matches_def candidate_cache_key_def
  cached_get_candidate_def result_of_def bufsiz_def create_unique_results_after_2000_def
  and_then_def spec_contest_key_def

lemmas demo_defs =
  demo_make_key_def demo_HumanName_def demo_clock_def no_caches_def rr_demo_def rr_judge_def
  rr_president_08_def rr_write_in_2002_def office_governor_def db_write_in_2002_def
  contest_write_in_2002_def caches_write_in_2002_def candidate_write_in_2002_def

lemma clean_office_president: "clean_office ''President - Vice Pres'' = ''President''"
  by (simp add: clean_office_def lower_def lower_char_def)

lemma clean_office_governor: "clean_office ''Governor / Lt. Governor'' = ''Governor''"
  by (simp add: clean_office_def lower_def lower_char_def)

lemma office_rr_demo: "office rr_demo = ''President - Vice Pres''"
  by (simp add: rr_demo_def)

lemma office_rr_write_in_2002: "office rr_write_in_2002 = ''Governor / Lt. Governor''"
  by (simp add: rr_write_in_2002_def)

section \<open>Field normalizer\<close>

lemma strip_leading_zeros_examples:
  "strip_leading_zeros ''0021'' = ''21''"
  "strip_leading_zeros ''007'' = ''7''"
  "strip_leading_zeros ''000'' = ''''"
  by (simp_all add: strip_leading_zeros_def)

lemma get_ocd_id_county:
  "reporting_level raw = ''county'' \<Longrightarrow>
   get_ocd_id raw =
     PyTuple [PyStr (''ocd-division/country:us/state:md/county:'' @
                     strip_leading_zeros (jurisdiction raw))]"
  by (simp add: get_ocd_id_def)

lemma get_ocd_id_precinct:
  "reporting_level raw = ''precinct'' \<Longrightarrow>
   get_ocd_id raw =
     PyStr (county_ocd_id raw @ ''/precinct:'' @ strip_leading_zeros (jurisdiction raw))"
  by (simp add: get_ocd_id_def)

lemma get_ocd_id_other:
  "reporting_level raw \<noteq> ''county'' \<Longrightarrow> reporting_level raw \<noteq> ''state_legislative'' \<Longrightarrow>
   reporting_level raw \<noteq> ''precinct'' \<Longrightarrow> get_ocd_id raw = PyNone"
  by (simp add: get_ocd_id_def)

text \<open>
  C1. At the county level the geographic-id function should return the string
  \<open>ocd-division/country:us/state:md/county:\<close> followed by the jurisdiction without its
  leading zeros. The code returns a tuple holding that string: for jurisdiction \<open>24\<close> the
  value is \<open>("ocd-division/country:us/state:md/county:24",)\<close>, not the string. (The
  precinct level and the unsupported levels behave as stated: \<open>get_ocd_id_precinct\<close>,
  \<open>get_ocd_id_other\<close>.)
\<close>

theorem get_ocd_id_county_returns_tuple:
  "reporting_level rr_demo = ''county'' \<and> jurisdiction rr_demo = ''24'' \<and>
   get_ocd_id rr_demo = PyTuple [PyStr ''ocd-division/country:us/state:md/county:24''] \<and>
   get_ocd_id rr_demo \<noteq> PyStr ''ocd-division/country:us/state:md/county:24''"
  by (simp add: get_ocd_id_def rr_demo_def strip_leading_zeros_def)

section \<open>Store lookups\<close>

lemma objects_get_Inr:
  assumes "objects_get P xs = Inr row"
  shows "fst row < length xs" and "snd row = xs ! fst row" and "P (snd row)"
    and "\<And>j. j < length xs \<Longrightarrow> P (xs ! j) \<Longrightarrow> j = fst row"
proof -
  from assms have f: "filter (\<lambda>r. P (snd r)) (enumerate 0 xs) = [row]"
    by (auto simp: objects_get_def split: list.splits)
  then have "row \<in> set (filter (\<lambda>r. P (snd r)) (enumerate 0 xs))" by simp
  then have m: "row \<in> set (enumerate 0 xs)" and p: "P (snd row)" by simp_all
  from m show "fst row < length xs" and "snd row = xs ! fst row"
    by (auto simp: in_set_enumerate_eq)
  from p show "P (snd row)" .
  fix j assume "j < length xs" and "P (xs ! j)"
  then have "(j, xs ! j) \<in> set (filter (\<lambda>r. P (snd r)) (enumerate 0 xs))"
    by (simp add: in_set_enumerate_eq)
  with f have "(j, xs ! j) = row" by simp
  then show "j = fst row" by auto
qed

lemma filter_singleton:
  assumes "distinct ys" and "y \<in> set ys" and "Q y" and "\<And>z. z \<in> set ys \<Longrightarrow> Q z \<Longrightarrow> z = y"
  shows "filter Q ys = [y]"
proof -
  from assms(2) obtain as bs where ys: "ys = as @ y # bs"
    by (auto simp: in_set_conv_decomp)
  have "\<not> Q z" if "z \<in> set as \<union> set bs" for z
  proof
    assume "Q z"
    moreover from that ys have "z \<in> set ys" by auto
    ultimately have "z = y" by (rule assms(4) [rotated])
    with that assms(1) ys show False by auto
  qed
  then have "filter Q as = []" "filter Q bs = []"
    by (simp_all add: filter_empty_conv)
  with assms(3) ys show ?thesis by simp
qed

lemma objects_get_unique:
  assumes "i < length xs" and "P (xs ! i)"
    and "\<And>j. j < length xs \<Longrightarrow> P (xs ! j) \<Longrightarrow> j = i"
  shows "objects_get P xs = Inr (i, xs ! i)"
proof -
  have d: "distinct (enumerate 0 xs)"
    by (simp add: distinct_enumerate)
  have m: "(i, xs ! i) \<in> set (enumerate 0 xs)"
    using assms(1) by (simp add: in_set_enumerate_eq)
  have u: "z = (i, xs ! i)" if "z \<in> set (enumerate 0 xs)" "P (snd z)" for z
  proof -
    obtain j x where z: "z = (j, x)" by (cases z)
    from that(1) z have "j < length xs" "x = xs ! j"
      by (simp_all add: in_set_enumerate_eq)
    with that(2) z assms(3) [of j] show ?thesis by simp
  qed
  have p: "P (snd (i, xs ! i))"
    using assms(2) by simp
  have "filter (\<lambda>r. P (snd r)) (enumerate 0 xs) = [(i, xs ! i)]"
    using d m p u by (rule filter_singleton)
  then show ?thesis by (simp add: objects_get_def)
qed

section \<open>Reference resolver\<close>

lemma office_query_of_state:
  "office_query_of raw = Inr q \<Longrightarrow>
   q_state q = (if clean_office (office raw) = ''President'' then ''US'' else ''MD'') \<and>
   q_name q = clean_office (office raw)"
  by (auto simp: office_query_of_def Let_def split: option.splits if_splits)

lemma get_office_miss:
  assumes q: "office_query_of raw = Inr q"
    and miss: "office_cache cs (mk q) = None"
    and got: "get_office mk d cs raw = Inr (off, cs')"
  shows "fst off < length (db_offices d) \<and> snd off = db_offices d ! fst off \<and>
         o_state (snd off) = (if clean_office (office raw) = ''President'' then ''US'' else ''MD'') \<and>
         o_name (snd off) = clean_office (office raw) \<and>
         o_key (snd off) = mk q \<and>
         cs' = cs\<lparr>office_cache := (office_cache cs)(mk q \<mapsto> off)\<rparr>"
proof -
  from q miss got have og: "objects_get (office_matches q) (db_offices d) = Inr off"
    and k: "o_key (snd off) = mk q"
    and c: "cs' = cs\<lparr>office_cache := (office_cache cs)(mk q \<mapsto> off)\<rparr>"
    by (auto simp: get_office_def Let_def split: sum.splits if_splits)
  from objects_get_Inr(3) [OF og] office_query_of_state [OF q]
  have "o_state (snd off) = (if clean_office (office raw) = ''President'' then ''US'' else ''MD'')"
    and "o_name (snd off) = clean_office (office raw)"
    by (simp_all add: office_matches_def)
  with objects_get_Inr(1,2) [OF og] k c show ?thesis by simp
qed

lemma get_office_returns:
  assumes q: "office_query_of raw = Inr q"
    and miss: "office_cache cs (mk q) = None"
    and i: "i < length (db_offices d)"
    and m: "office_matches q (db_offices d ! i)"
    and u: "\<forall>j < length (db_offices d). office_matches q (db_offices d ! j) \<longrightarrow> j = i"
    and k: "o_key (db_offices d ! i) = mk q"
  shows "get_office mk d cs raw =
           Inr ((i, db_offices d ! i),
                cs\<lparr>office_cache := (office_cache cs)(mk q \<mapsto> (i, db_offices d ! i))\<rparr>)"
proof -
  have "objects_get (office_matches q) (db_offices d) = Inr (i, db_offices d ! i)"
  proof (rule objects_get_unique)
    show "i < length (db_offices d)" by (rule i)
    show "office_matches q (db_offices d ! i)" by (rule m)
    fix j assume "j < length (db_offices d)" and "office_matches q (db_offices d ! j)"
    with u show "j = i" by blast
  qed
  with q miss k show ?thesis by (simp add: get_office_def Let_def)
qed

text \<open>
  C9. The office query carries the state \<open>MD\<close>, or \<open>US\<close> exactly when the cleaned office
  name is \<open>President\<close>, and the cleaned office name; the record's own state field plays
  no part, so that changing it changes neither the query nor the outcome of the resolution.
  The resolution is against Maryland or national offices: an office fetched from the store
  is a stored Office whose state is \<open>MD\<close>, or \<open>US\<close> for President, whose name is the cleaned
  office name and whose key is the query's key; and when the store holds exactly one
  Office matching the query, with that key, the resolution returns it and caches it,
  whatever the record's state field says.
\<close>

theorem office_resolved_against_md_or_us:
  "(\<forall>q. office_query_of raw = Inr q \<longrightarrow>
      q_state q = (if clean_office (office raw) = ''President'' then ''US'' else ''MD'') \<and>
      q_name q = clean_office (office raw)) \<and>
   office_query_of (raw\<lparr>state := s\<rparr>) = office_query_of raw \<and>
   get_office make_key d cs (raw\<lparr>state := s\<rparr>) = get_office make_key d cs raw \<and>
   (\<forall>q off cs'.
      office_query_of raw = Inr q \<and> office_cache cs (make_key q) = None \<and>
      get_office make_key d cs (raw\<lparr>state := s\<rparr>) = Inr (off, cs') \<longrightarrow>
      fst off < length (db_offices d) \<and> snd off = db_offices d ! fst off \<and>
      o_state (snd off) =
        (if clean_office (office raw) = ''President'' then ''US'' else ''MD'') \<and>
      o_name (snd off) = clean_office (office raw) \<and>
      o_key (snd off) = make_key q) \<and>
   (\<forall>q i.
      office_query_of raw = Inr q \<and> office_cache cs (make_key q) = None \<and>
      i < length (db_offices d) \<and> office_matches q (db_offices d ! i) \<and>
      (\<forall>j < length (db_offices d). office_matches q (db_offices d ! j) \<longrightarrow> j = i) \<and>
      o_key (db_offices d ! i) = make_key q \<longrightarrow>
      get_office make_key d cs (raw\<lparr>state := s\<rparr>) =
        Inr ((i, db_offices d ! i),
             cs\<lparr>office_cache := (office_cache cs)(make_key q \<mapsto> (i, db_offices d ! i))\<rparr>))"
proof -
  have sameq: "office_query_of (raw\<lparr>state := s\<rparr>) = office_query_of raw"
    by (auto simp: office_query_of_def Let_def split: option.splits)
  have same: "get_office make_key d cs (raw\<lparr>state := s\<rparr>) = get_office make_key d cs raw"
    by (simp add: get_office_def sameq)
  have a: "\<forall>q. office_query_of raw = Inr q \<longrightarrow>
      q_state q = (if clean_office (office raw) = ''President'' then ''US'' else ''MD'') \<and>
      q_name q = clean_office (office raw)"
    using office_query_of_state [of raw] by blast
  have b: "\<forall>q off cs'.
      office_query_of raw = Inr q \<and> office_cache cs (make_key q) = None \<and>
      get_office make_key d cs (raw\<lparr>state := s\<rparr>) = Inr (off, cs') \<longrightarrow>
      fst off < length (db_offices d) \<and> snd off = db_offices d ! fst off \<and>
      o_state (snd off) =
        (if clean_office (office raw) = ''President'' then ''US'' else ''MD'') \<and>
      o_name (snd off) = clean_office (office raw) \<and>
      o_key (snd off) = make_key q"
  proof (intro allI impI)
    fix q off cs'
    assume h: "office_query_of raw = Inr q \<and> office_cache cs (make_key q) = None \<and>
      get_office make_key d cs (raw\<lparr>state := s\<rparr>) = Inr (off, cs')"
    then have h3: "get_office make_key d cs raw = Inr (off, cs')" by (simp add: same)
    from h have h1: "office_query_of raw = Inr q" and h2: "office_cache cs (make_key q) = None"
      by simp_all
    from get_office_miss [OF h1 h2 h3]
    show "fst off < length (db_offices d) \<and> snd off = db_offices d ! fst off \<and>
      o_state (snd off) =
        (if clean_office (office raw) = ''President'' then ''US'' else ''MD'') \<and>
      o_name (snd off) = clean_office (office raw) \<and>
      o_key (snd off) = make_key q"
      by blast
  qed
  have c: "\<forall>q i.
      office_query_of raw = Inr q \<and> office_cache cs (make_key q) = None \<and>
      i < length (db_offices d) \<and> office_matches q (db_offices d ! i) \<and>
      (\<forall>j < length (db_offices d). office_matches q (db_offices d ! j) \<longrightarrow> j = i) \<and>
      o_key (db_offices d ! i) = make_key q \<longrightarrow>
      get_office make_key d cs (raw\<lparr>state := s\<rparr>) =
        Inr ((i, db_offices d ! i),
             cs\<lparr>office_cache := (office_cache cs)(make_key q \<mapsto> (i, db_offices d ! i))\<rparr>)"
  proof (intro allI impI)
    fix q i
    assume h: "office_query_of raw = Inr q \<and> office_cache cs (make_key q) = None \<and>
      i < length (db_offices d) \<and> office_matches q (db_offices d ! i) \<and>
      (\<forall>j < length (db_offices d). office_matches q (db_offices d ! j) \<longrightarrow> j = i) \<and>
      o_key (db_offices d ! i) = make_key q"
    then have h1: "office_query_of raw = Inr q" and h2: "office_cache cs (make_key q) = None"
      and h3: "i < length (db_offices d)" and h4: "office_matches q (db_offices d ! i)"
      and h5: "\<forall>j < length (db_offices d). office_matches q (db_offices d ! j) \<longrightarrow> j = i"
      and h6: "o_key (db_offices d ! i) = make_key q"
      by simp_all
    have "get_office make_key d cs raw =
        Inr ((i, db_offices d ! i),
             cs\<lparr>office_cache := (office_cache cs)(make_key q \<mapsto> (i, db_offices d ! i))\<rparr>)"
      using h1 h2 h3 h4 h5 h6 by (rule get_office_returns)
    then show "get_office make_key d cs (raw\<lparr>state := s\<rparr>) =
        Inr ((i, db_offices d ! i),
             cs\<lparr>office_cache := (office_cache cs)(make_key q \<mapsto> (i, db_offices d ! i))\<rparr>)"
      by (simp add: same)
  qed
  from a sameq same b c show ?thesis by (intro conjI)
qed


theorem office_resolved_against_md_or_us_witness:
  "office_query_of (rr_demo\<lparr>state := ''VA''\<rparr>) =
     Inr \<lparr>q_state = ''US'', q_name = ''President'', q_district = None\<rparr> \<and>
   office_query_of (rr_write_in_2002\<lparr>state := ''VA''\<rparr>) =
     Inr \<lparr>q_state = ''MD'', q_name = ''Governor'', q_district = None\<rparr> \<and>
   get_office demo_make_key db_write_in_2002 no_caches (rr_write_in_2002\<lparr>state := ''VA''\<rparr>) =
     Inr ((0, office_governor), caches_write_in_2002) \<and>
   o_state office_governor = ''MD'' \<and>
   map_sum id fst (get_office demo_make_key db_sample no_caches (rr_demo\<lparr>state := ''VA''\<rparr>)) =
     Inr (1, office_president) \<and>
   o_state office_president = ''US''"
proof -
  let ?qP = "\<lparr>q_state = ''US'', q_name = ''President'', q_district = None\<rparr>"
  let ?qG = "\<lparr>q_state = ''MD'', q_name = ''Governor'', q_district = None\<rparr>"
  have p: "office_query_of rr_demo = Inr ?qP"
    by (simp add: office_query_of_def office_rr_demo clean_office_president
        district_offices_def)
  have g: "office_query_of rr_write_in_2002 = Inr ?qG"
    by (simp add: office_query_of_def office_rr_write_in_2002 clean_office_governor
        district_offices_def)
  have keys: "demo_make_key ?qP = ''US/President/''" "demo_make_key ?qG = ''MD/Governor/''"
    by (simp_all add: demo_make_key_def)
  have offs: "db_offices db_write_in_2002 = [office_governor]"
    "db_offices db_sample = [office_governor, office_president]"
    by (simp_all add: db_write_in_2002_def db_sample_def)
  have m: "office_matches ?qG office_governor" "office_matches ?qP office_president"
    "\<not> office_matches ?qP office_governor"
    by (simp_all add: office_matches_def opt_matches_def office_governor_def
        office_president_def)
  have st: "o_state office_governor = ''MD''" "o_state office_president = ''US''"
    "o_key office_governor = ''MD/Governor/''" "o_key office_president = ''US/President/''"
    by (simp_all add: office_governor_def office_president_def)
  have miss: "office_cache no_caches k = None" for k
    by (simp add: no_caches_def)
  note thG = office_resolved_against_md_or_us
    [of rr_write_in_2002 "''VA''" demo_make_key db_write_in_2002 no_caches]
  note thP = office_resolved_against_md_or_us
    [of rr_demo "''VA''" demo_make_key db_sample no_caches]
  have uG: "\<forall>j < length (db_offices db_write_in_2002).
      office_matches ?qG (db_offices db_write_in_2002 ! j) \<longrightarrow> j = 0"
    by (simp add: offs)
  have uP: "\<forall>j < length (db_offices db_sample).
      office_matches ?qP (db_offices db_sample ! j) \<longrightarrow> j = 1"
    using m(3) by (auto simp: offs less_Suc_eq)
  have rG: "get_office demo_make_key db_write_in_2002 no_caches
              (rr_write_in_2002\<lparr>state := ''VA''\<rparr>) =
            Inr ((0, db_offices db_write_in_2002 ! 0),
                 no_caches\<lparr>office_cache := (office_cache no_caches)
                   (demo_make_key ?qG \<mapsto> (0, db_offices db_write_in_2002 ! 0))\<rparr>)"
    using g miss uG m(1) st(3) keys(2)
    by (intro thG [THEN conjunct2, THEN conjunct2, THEN conjunct2, THEN conjunct2, rule_format])
      (simp add: offs)
  have rP: "get_office demo_make_key db_sample no_caches (rr_demo\<lparr>state := ''VA''\<rparr>) =
            Inr ((1, db_offices db_sample ! 1),
                 no_caches\<lparr>office_cache := (office_cache no_caches)
                   (demo_make_key ?qP \<mapsto> (1, db_offices db_sample ! 1))\<rparr>)"
    using p miss uP m(2) st(4) keys(1)
    by (intro thP [THEN conjunct2, THEN conjunct2, THEN conjunct2, THEN conjunct2, rule_format])
      (simp add: offs)
  have cG: "no_caches\<lparr>office_cache := (office_cache no_caches)
              (''MD/Governor/'' \<mapsto> (0, office_governor))\<rparr> = caches_write_in_2002"
    by (simp add: no_caches_def caches_write_in_2002_def)
  from thG p g have q2: "office_query_of (rr_write_in_2002\<lparr>state := ''VA''\<rparr>) = Inr ?qG"
    by simp
  from thP p have q1: "office_query_of (rr_demo\<lparr>state := ''VA''\<rparr>) = Inr ?qP"
    by simp
  from rG have rG': "get_office demo_make_key db_write_in_2002 no_caches
      (rr_write_in_2002\<lparr>state := ''VA''\<rparr>) = Inr ((0, office_governor), caches_write_in_2002)"
    by (simp add: offs keys cG)
  from rP have rP': "map_sum id fst
      (get_office demo_make_key db_sample no_caches (rr_demo\<lparr>state := ''VA''\<rparr>)) =
      Inr (1, office_president)"
    by (simp add: offs)
  from q1 q2 rG' rP' st(1,2) show ?thesis by (intro conjI)
qed

section \<open>Candidate fields\<close>

text \<open>
  C10. A record whose end date is in 2002 or later gets its candidate fields from one of
  the two builders; the loader's filter lets only such records through; the unsupported-era
  error is raised exactly for years before 2002.
\<close>

theorem get_candidate_fields_era_supported:
  "(2002 \<le> year (end_date raw) \<longrightarrow> (\<exists>c. get_candidate_fields HumanName raw = Inr c)) \<and>
   (raw \<in> set (get_raw_results_after_2000 d) \<longrightarrow> 2002 \<le> year (end_date raw)) \<and>
   (get_candidate_fields HumanName raw = Inl ValueError \<longleftrightarrow> year (end_date raw) < 2002)"
  by (auto simp: get_candidate_fields_def get_raw_results_after_2000_def datetime_ge_def
      datetime_parts_def datetime3_def Let_def)

theorem get_candidate_fields_era_supported_witness:
  "2002 \<le> year (end_date rr_write_in_2002) \<and>
   rr_write_in_2002 \<in> set (get_raw_results_after_2000 db_write_in_2002) \<and>
   (\<exists>c. get_candidate_fields demo_HumanName rr_write_in_2002 = Inr c) \<and>
   get_candidate_fields demo_HumanName rr_write_in_2002 \<noteq> Inl ValueError"
  using get_candidate_fields_era_supported [of rr_write_in_2002 demo_HumanName db_write_in_2002]
  by (simp add: get_raw_results_after_2000_def datetime_ge_def datetime_parts_def datetime3_def
      demo_defs)

text \<open>
  C8. For a record of the year 2002: if the family name is the write-in sentinel, the
  candidate fields have no given, family or additional name and the full name is
  \<open>Other Write-Ins\<close>; otherwise the full name is the given name, the additional name
  (left out only when it is the null-name marker) and the family name, separated by
  single spaces.
\<close>

theorem get_candidate_fields_2002_full_name:
  "year (end_date raw) = 2002 \<Longrightarrow>
   \<exists>c. get_candidate_fields HumanName raw = Inr c \<and>
       (if family_name raw = ''zz998'' then
          cand_given_name c = None \<and> cand_family_name c = None \<and>
          cand_additional_name c = None \<and> cand_full_name c = ''Other Write-Ins''
        else if additional_name raw = [CHR 0x5C, CHR ''N''] then
          cand_full_name c = given_name raw @ '' '' @ family_name raw
        else
          cand_full_name c =
            given_name raw @ '' '' @ additional_name raw @ '' '' @ family_name raw)"
  by (simp add: get_candidate_fields_def get_candidate_fields_2002_def null_name_def Let_def)

theorem get_candidate_fields_2002_full_name_witness:
  "year (end_date rr_write_in_2002) = 2002 \<and>
   map_sum id (\<lambda>c. (cand_full_name c, cand_given_name c, cand_family_name c,
                     cand_additional_name c))
     (get_candidate_fields demo_HumanName rr_write_in_2002) =
     Inr (''Other Write-Ins'', None, None, None) \<and>
   map_sum id cand_full_name
     (get_candidate_fields demo_HumanName
        (rr_write_in_2002\<lparr>given_name := ''Robert'', additional_name := ''L.'',
                          family_name := ''Ehrlich''\<rparr>)) = Inr ''Robert L. Ehrlich'' \<and>
   map_sum id cand_full_name
     (get_candidate_fields demo_HumanName
        (rr_write_in_2002\<lparr>given_name := ''Robert'', family_name := ''Ehrlich''\<rparr>)) =
     Inr ''Robert Ehrlich''"
  using get_candidate_fields_2002_full_name [of rr_write_in_2002 demo_HumanName]
        get_candidate_fields_2002_full_name
          [of "rr_write_in_2002\<lparr>given_name := ''Robert'', additional_name := ''L.'',
                                family_name := ''Ehrlich''\<rparr>" demo_HumanName]
        get_candidate_fields_2002_full_name
          [of "rr_write_in_2002\<lparr>given_name := ''Robert'', family_name := ''Ehrlich''\<rparr>"
              demo_HumanName]
  by (auto simp add: demo_defs datetime3_def null_name_def)


section \<open>Contest key\<close>

lemma py_replace_absent:
  "old \<noteq> [] \<Longrightarrow> \<not> py_in old s \<Longrightarrow> py_replace old new s = s"
  by (induction s) auto

lemma prefix_of_longer_append:
  assumes "prefix xs (ys @ zs)" and "length xs \<le> length ys"
  shows "prefix xs ys"
proof -
  from assms(1) have "prefix xs ys \<or> (\<exists>us. xs = ys @ us \<and> prefix us zs)"
    by (simp add: prefix_append)
  then show ?thesis
  proof
    assume "prefix xs ys"
    then show ?thesis .
  next
    assume "\<exists>us. xs = ys @ us \<and> prefix us zs"
    then obtain us where "xs = ys @ us" by blast
    with assms(2) show ?thesis by simp
  qed
qed

lemma py_replace_first_occurrence:
  assumes "old \<noteq> []" and "\<not> py_in old (pre @ butlast old)"
  shows "py_replace old new (pre @ old @ post) = pre @ new @ py_replace old new post"
  using assms(2)
proof (induction pre)
  case Nil
  from assms(1) obtain c cs where old: "old = c # cs" by (cases old) auto
  have "py_replace old new (old @ post) = new @ py_replace old new (drop (length old) (old @ post))"
    unfolding old by simp
  then show ?case by simp
next
  case (Cons a pre)
  from Cons.prems have np: "\<not> prefix old (a # pre @ butlast old)"
    and ni: "\<not> py_in old (pre @ butlast old)"
    by simp_all
  have "\<not> prefix old (a # pre @ old @ post)"
  proof
    assume p: "prefix old (a # pre @ old @ post)"
    have "a # pre @ old @ post = (a # pre @ butlast old) @ (last old # post)"
      using assms(1) by simp
    with p have "prefix old ((a # pre @ butlast old) @ (last old # post))" by simp
    moreover have "length old \<le> length (a # pre @ butlast old)" by simp
    ultimately have "prefix old (a # pre @ butlast old)"
      by (rule prefix_of_longer_append)
    with np show False by contradiction
  qed
  with assms(1) Cons.IH [OF ni] show ?case by simp
qed

lemma contest_key_rr_judge:
  "contest_key rr_judge = (''md-2012-04-03-primary'', ''judge-of-the-circuit-court-dem'')"
  by (simp add: model_defs demo_defs)

lemma spec_contest_key_rr_judge:
  "spec_contest_key rr_judge = (''md-2012-04-03-primary'', ''judge-of-the-circuit-court-3-dem'')"
  by (simp add: model_defs demo_defs suffix_def)

theorem contest_key_counterexample:
  "contest_key rr_judge = (''md-2012-04-03-primary'', ''judge-of-the-circuit-court-dem'') \<and>
   spec_contest_key rr_judge =
     (''md-2012-04-03-primary'', ''judge-of-the-circuit-court-3-dem'') \<and>
   contest_key rr_judge \<noteq> spec_contest_key rr_judge"
  by (simp add: contest_key_rr_judge spec_contest_key_rr_judge)

text \<open>
  C3, amended. \<open>contest_key\<close> returns the election id and the slug. The slug is the
  record's contest slug unchanged when the cleaned office is a district office or the
  district is empty or absent. Otherwise every occurrence of \<open>-\<close> followed by the
  lower-cased district is removed from the slug, wherever it stands and however often
  (the slug itself is compared as it is): a slug without an occurrence is unchanged, and
  a slug \<open>pre @ pattern @ post\<close> whose first occurrence is the one shown becomes \<open>pre\<close>
  followed by \<open>post\<close> treated the same way. In particular a slug whose only occurrence
  is at its end loses exactly that suffix.
\<close>

theorem contest_key_removes_every_occurrence:
  "fst (contest_key raw) = election_id raw \<and>
   (clean_office (office raw) \<in> set district_offices \<or> \<not> truthy (district raw) \<longrightarrow>
      snd (contest_key raw) = contest_slug raw) \<and>
   (clean_office (office raw) \<notin> set district_offices \<and> district raw = Some dist \<and> dist \<noteq> [] \<longrightarrow>
      snd (contest_key raw) = py_replace (''-'' @ lower dist) [] (contest_slug raw) \<and>
      (\<not> py_in (''-'' @ lower dist) (contest_slug raw) \<longrightarrow>
         snd (contest_key raw) = contest_slug raw) \<and>
      (\<forall>pre post.
         contest_slug raw = pre @ (''-'' @ lower dist) @ post \<and>
         \<not> py_in (''-'' @ lower dist) (pre @ butlast (''-'' @ lower dist)) \<longrightarrow>
         snd (contest_key raw) = pre @ py_replace (''-'' @ lower dist) [] post))"
proof -
  have a: "fst (contest_key raw) = election_id raw"
    by (simp add: contest_key_def Let_def)
  have b: "snd (contest_key raw) = contest_slug raw"
    if "clean_office (office raw) \<in> set district_offices \<or> \<not> truthy (district raw)"
    using that by (auto simp: contest_key_def Let_def truthy_def split: option.splits)
  have c: "snd (contest_key raw) = py_replace (''-'' @ lower dist) [] (contest_slug raw)"
    if "clean_office (office raw) \<notin> set district_offices" "district raw = Some dist" "dist \<noteq> []"
    using that by (simp add: contest_key_def Let_def)
  have ne: "''-'' @ lower dist \<noteq> []" by simp
  have d: "py_replace (''-'' @ lower dist) [] (contest_slug raw) = contest_slug raw"
    if "\<not> py_in (''-'' @ lower dist) (contest_slug raw)"
    using ne that by (rule py_replace_absent)
  have e: "py_replace (''-'' @ lower dist) [] (contest_slug raw) =
           pre @ py_replace (''-'' @ lower dist) [] post"
    if "contest_slug raw = pre @ (''-'' @ lower dist) @ post"
       "\<not> py_in (''-'' @ lower dist) (pre @ butlast (''-'' @ lower dist))" for pre post
    using py_replace_first_occurrence [OF ne that(2), of "[]" post] that(1)
    by simp
  show ?thesis
    using a b c d e by metis
qed

lemma clean_office_plain_president: "clean_office ''President'' = ''President''"
  by (simp add: clean_office_def lower_def lower_char_def)

theorem contest_key_removes_every_occurrence_witness:
  "clean_office (office rr_president_08) \<notin> set district_offices \<and>
   district rr_president_08 = Some ''08'' \<and>
   contest_slug rr_president_08 = ''2000-president'' @ (''-'' @ lower ''08'') @ [] \<and>
   \<not> py_in (''-'' @ lower ''08'') (''2000-president'' @ butlast (''-'' @ lower ''08'')) \<and>
   contest_key rr_president_08 = (''md-2012-11-06-general'', ''2000-president'') \<and>
   \<not> truthy (district rr_demo) \<and>
   contest_key rr_demo = (''md-2012-11-06-general'', ''president'')"
proof -
  have h1: "clean_office (office rr_president_08) \<notin> set district_offices"
    by (simp add: rr_president_08_def clean_office_plain_president district_offices_def)
  have h2: "district rr_president_08 = Some ''08''"
    by (simp add: rr_president_08_def)
  have h3: "contest_slug rr_president_08 = ''2000-president'' @ (''-'' @ lower ''08'') @ []"
    by (simp add: rr_president_08_def lower_def lower_char_def)
  have h4: "\<not> py_in (''-'' @ lower ''08'') (''2000-president'' @ butlast (''-'' @ lower ''08''))"
    by (simp add: lower_def lower_char_def)
  have h5: "\<not> truthy (district rr_demo)"
    by (simp add: rr_demo_def truthy_def)
  have e1: "election_id rr_president_08 = ''md-2012-11-06-general''"
    by (simp add: rr_president_08_def rr_demo_def)
  have e2: "election_id rr_demo = ''md-2012-11-06-general''"
       "contest_slug rr_demo = ''president''"
    by (simp_all add: rr_demo_def)
  have "snd (contest_key rr_president_08) = ''2000-president'' @ py_replace (''-'' @ lower ''08'') [] []"
    using contest_key_removes_every_occurrence [of rr_president_08 "''08''"] h1 h2 h3 h4
    by blast
  then have k1: "snd (contest_key rr_president_08) = ''2000-president''"
    by simp
  have k2: "fst (contest_key rr_president_08) = election_id rr_president_08"
    using contest_key_removes_every_occurrence [of rr_president_08 "''08''"] by blast
  have k3: "fst (contest_key rr_demo) = election_id rr_demo"
       "snd (contest_key rr_demo) = contest_slug rr_demo"
    using contest_key_removes_every_occurrence [of rr_demo "[]"] h5 by blast+
  show ?thesis
    using h1 h2 h3 h4 h5 k1 k2 k3 e1 e2 by (simp add: prod_eq_iff)
qed


section \<open>Pass 1\<close>

lemma set_first_of_key: "set (first_of_key rs) \<subseteq> set rs"
  by (induction rs) auto

lemma image_filter_neq: "f ` {x \<in> S. f x \<noteq> k} = f ` S - {k}"
  by auto

lemma keys_first_of_key: "contest_key ` set (first_of_key rs) = contest_key ` set rs"
proof (induction rs)
  case Nil
  show ?case by simp
next
  case (Cons r rs)
  have "contest_key ` set (first_of_key (r # rs)) =
        insert (contest_key r) (contest_key ` set (first_of_key rs) - {contest_key r})"
    by (simp add: image_filter_neq)
  also have "\<dots> = insert (contest_key r) (contest_key ` set rs)"
    unfolding Cons.IH by blast
  finally show ?case by simp
qed

lemma distinct_first_of_key: "distinct (map contest_key (first_of_key rs))"
proof (induction rs)
  case Nil
  show ?case by simp
next
  case (Cons r rs)
  have "distinct (map contest_key (filter (\<lambda>x. contest_key x \<noteq> contest_key r) (first_of_key rs)))"
    using Cons.IH by (rule distinct_map_filter)
  then show ?case by auto
qed

lemma find_first_of_key:
  "f \<in> set (first_of_key rs) \<Longrightarrow> find (\<lambda>x. contest_key x = contest_key f) rs = Some f"
proof (induction rs)
  case Nil
  then show ?case by simp
next
  case (Cons r rs)
  show ?case
  proof (cases "f = r")
    case True
    then show ?thesis by simp
  next
    case False
    with Cons.prems have "f \<in> set (first_of_key rs)" and "contest_key f \<noteq> contest_key r"
      by simp_all
    with Cons.IH show ?thesis by simp
  qed
qed

lemma first_of_key_find:
  "find (\<lambda>x. contest_key x = contest_key r) rs = Some f \<Longrightarrow> f \<in> set (first_of_key rs)"
proof (induction rs)
  case Nil
  then show ?case by simp
next
  case (Cons a rs)
  show ?case
  proof (cases "contest_key a = contest_key r")
    case True
    with Cons.prems show ?thesis by simp
  next
    case False
    with Cons.prems have fnd: "find (\<lambda>x. contest_key x = contest_key r) rs = Some f"
      by simp
    then have "contest_key f = contest_key r"
      by (auto simp: find_Some_iff)
    with False Cons.IH [OF fnd] show ?thesis by simp
  qed
qed

lemma first_of_key_Cons_seen:
  assumes "contest_key r \<in> seen"
  shows "filter (\<lambda>x. contest_key x \<notin> seen) (first_of_key (r # rrs)) =
         filter (\<lambda>x. contest_key x \<notin> seen) (first_of_key rrs)"
proof -
  have "filter (\<lambda>x. contest_key x \<noteq> contest_key r \<and> contest_key x \<notin> seen) (first_of_key rrs) =
        filter (\<lambda>x. contest_key x \<notin> seen) (first_of_key rrs)"
    using assms by (intro filter_cong refl) auto
  with assms show ?thesis by simp
qed

lemma first_of_key_Cons_new:
  assumes "contest_key r \<notin> seen"
  shows "filter (\<lambda>x. contest_key x \<notin> seen) (first_of_key (r # rrs)) =
         r # filter (\<lambda>x. contest_key x \<notin> insert (contest_key r) seen) (first_of_key rrs)"
proof -
  have "filter (\<lambda>x. contest_key x \<notin> insert (contest_key r) seen) (first_of_key rrs) =
        filter (\<lambda>x. contest_key x \<noteq> contest_key r \<and> contest_key x \<notin> seen) (first_of_key rrs)"
    by (intro filter_cong refl) auto
  with assms show ?thesis by simp
qed

lemma contests_loop_refines:
  "contests_loop mk clock d rrs cs acc seen =
     (case build_contests mk clock d
             (filter (\<lambda>x. contest_key x \<notin> seen) (first_of_key rrs)) cs (length acc) of
        Inl e \<Rightarrow> Inl e
      | Inr (cs', new) \<Rightarrow> Inr (cs', acc @ new, seen \<union> contest_key ` set rrs))"
proof (induction rrs arbitrary: cs acc seen)
  case Nil
  show ?case by simp
next
  case (Cons r rrs)
  show ?case
  proof (cases "contest_key r \<in> seen")
    case True
    have s: "seen \<union> contest_key ` set (r # rrs) = seen \<union> contest_key ` set rrs"
      using True by auto
    have "contests_loop mk clock d (r # rrs) cs acc seen = contests_loop mk clock d rrs cs acc seen"
      using True by simp
    then show ?thesis
      unfolding s first_of_key_Cons_seen [OF True] by (simp only: Cons.IH)
  next
    case False
    have s: "seen \<union> contest_key ` set (r # rrs) = insert (contest_key r) seen \<union> contest_key ` set rrs"
      by auto
    show ?thesis
    proof (cases "get_contest_fields mk d cs r")
      case (Inl e)
      with False show ?thesis
        unfolding s first_of_key_Cons_new [OF False] by simp
    next
      case (Inr p)
      obtain flds cs' where p: "p = (flds, cs')" by (cases p)
      have step: "contests_loop mk clock d (r # rrs) cs acc seen =
          contests_loop mk clock d rrs cs'
            (acc @ [flds\<lparr>c_created := Some (clock (length acc)), c_updated := Some (clock (length acc))\<rparr>])
            (insert (contest_key r) seen)"
        using False Inr p by (simp add: Let_def)
      show ?thesis
      proof (cases "build_contests mk clock d
             (filter (\<lambda>x. contest_key x \<notin> insert (contest_key r) seen) (first_of_key rrs)) cs' (Suc (length acc))")
        case (Inl e)
        show ?thesis
          unfolding s first_of_key_Cons_new [OF False] step Cons.IH
          using Inl \<open>get_contest_fields mk d cs r = Inr p\<close> p by simp
      next
        case (Inr q)
        obtain cs'' rest where q: "q = (cs'', rest)" by (cases q)
        show ?thesis
          unfolding s first_of_key_Cons_new [OF False] step Cons.IH
          using Inr q \<open>get_contest_fields mk d cs r = Inr p\<close> p by simp
      qed
    qed
  qed
qed


lemma build_contests_length:
  "build_contests mk clock d fs cs n = Inr (cs', new) \<Longrightarrow> length new = length fs"
proof (induction fs arbitrary: cs n cs' new)
  case Nil
  then show ?case by simp
next
  case (Cons f fs)
  from Cons.prems obtain flds cs1 cs2 rest where
    g: "get_contest_fields mk d cs f = Inr (flds, cs1)" and
    r: "build_contests mk clock d fs cs1 (Suc n) = Inr (cs2, rest)" and
    n: "new = flds\<lparr>c_created := Some (clock n), c_updated := Some (clock n)\<rparr> # rest"
    by (auto split: sum.splits)
  from Cons.IH [OF r] n show ?case by simp
qed

lemma get_contest_fields_copies:
  "get_contest_fields mk d cs f = Inr (flds, cs') \<Longrightarrow>
   c_election_id flds = election_id f \<and> c_source flds = Some (source f)"
  by (auto simp: get_contest_fields_def split: sum.splits)

lemma build_contests_nth:
  "build_contests mk clock d fs cs n = Inr (cs', new) \<Longrightarrow> i < length fs \<Longrightarrow>
   c_election_id (new ! i) = election_id (fs ! i) \<and>
   c_source (new ! i) = Some (source (fs ! i)) \<and>
   c_created (new ! i) = Some (clock (n + i)) \<and>
   c_updated (new ! i) = Some (clock (n + i))"
proof (induction fs arbitrary: cs n cs' new i)
  case Nil
  then show ?case by simp
next
  case (Cons f fs)
  from Cons.prems(1) obtain flds cs1 cs2 rest where
    g: "get_contest_fields mk d cs f = Inr (flds, cs1)" and
    r: "build_contests mk clock d fs cs1 (Suc n) = Inr (cs2, rest)" and
    n: "new = flds\<lparr>c_created := Some (clock n), c_updated := Some (clock n)\<rparr> # rest"
    by (auto split: sum.splits)
  show ?case
  proof (cases i)
    case 0
    with n get_contest_fields_copies [OF g] show ?thesis by simp
  next
    case (Suc j)
    with Cons.prems(2) have "j < length fs" by simp
    from Cons.IH [OF r this] n Suc show ?thesis by simp
  qed
qed

lemma length_first_of_key: "length (first_of_key rs) = card (contest_key ` set rs)"
proof -
  have "card (contest_key ` set rs) = card (set (map contest_key (first_of_key rs)))"
    by (simp add: keys_first_of_key)
  also have "\<dots> = length (map contest_key (first_of_key rs))"
    using distinct_first_of_key by (rule distinct_card)
  finally show ?thesis by simp
qed

lemma create_unique_contests_refines:
  "create_unique_contests_after_2000 mk clock (d, cs) =
     (case build_contests mk clock d (first_of_key (get_raw_results_after_2000 d)) cs 0 of
        Inl e \<Rightarrow> Inl e
      | Inr (cs', new) \<Rightarrow> Inr (d\<lparr>db_contests := db_contests d @ new\<rparr>, cs', length new))"
  unfolding create_unique_contests_after_2000_def
  by (simp add: contests_loop_refines [where seen = "{}" and acc = "[]", simplified]
      split: sum.splits)

text \<open>
  C5. Pass 1 builds one Contest for each record that is the first, in stream order, to
  bear its (election id, corrected slug) key, in that order, and nothing for the other
  records; these first records have pairwise different keys, cover every key of the
  filtered stream, and their number is the number of keys. The Contest built at position
  \<open>i\<close> carries the election id and source of the \<open>i\<close>-th first record and the time of
  the \<open>i\<close>-th call of the clock.
\<close>

theorem pass1_one_contest_per_key:
  "(let rrs = get_raw_results_after_2000 d; firsts = first_of_key rrs in
    create_unique_contests_after_2000 make_key clock (d, cs) =
      (case build_contests make_key clock d firsts cs 0 of
         Inl e \<Rightarrow> Inl e
       | Inr (cs', new) \<Rightarrow> Inr (d\<lparr>db_contests := db_contests d @ new\<rparr>, cs', length new)) \<and>
    distinct (map contest_key firsts) \<and>
    contest_key ` set firsts = contest_key ` set rrs \<and>
    length firsts = card (contest_key ` set rrs) \<and>
    (\<forall>f \<in> set firsts. find (\<lambda>x. contest_key x = contest_key f) rrs = Some f) \<and>
    (\<forall>cs' new. build_contests make_key clock d firsts cs 0 = Inr (cs', new) \<longrightarrow>
       length new = length firsts \<and>
       (\<forall>i < length firsts.
          c_election_id (new ! i) = election_id (firsts ! i) \<and>
          c_source (new ! i) = Some (source (firsts ! i)) \<and>
          c_created (new ! i) = Some (clock i))))"
  unfolding Let_def
  using create_unique_contests_refines [of make_key clock d cs]
    distinct_first_of_key [of "get_raw_results_after_2000 d"]
    keys_first_of_key [of "get_raw_results_after_2000 d"]
    length_first_of_key [of "get_raw_results_after_2000 d"]
    find_first_of_key [of _ "get_raw_results_after_2000 d"]
    build_contests_length [of make_key clock d "first_of_key (get_raw_results_after_2000 d)" cs 0]
    build_contests_nth [of make_key clock d "first_of_key (get_raw_results_after_2000 d)" cs 0]
  by (intro conjI allI impI ballI) simp_all

lemmas sample_defs =
  rr_romney_def rr_johnson_08_def rr_old_def office_president_def res_stale_def res_other_def
  db_sample_def contest_president_2012_def contest_governor_2002_def caches_sample_def
  cand_obama_def cand_romney_def cand_johnson_def cand_write_in_def db_sample_loaded_def
  rr_primary_dem_def rr_primary_rep_def office_judge_def db_clash_def contest_cache_sample_def

lemma filtered_sample:
  "get_raw_results_after_2000 db_sample = [rr_demo, rr_romney, rr_johnson_08, rr_write_in_2002]"
  by (simp add: get_raw_results_after_2000_def datetime_ge_def datetime_parts_def datetime3_def
      demo_defs sample_defs)

lemma contest_key_sample:
  "contest_key rr_demo = (''md-2012-11-06-general'', ''president'')"
  "contest_key rr_romney = (''md-2012-11-06-general'', ''president'')"
  "contest_key rr_johnson_08 = (''md-2012-11-06-general'', ''president'')"
  "contest_key rr_write_in_2002 = (''md-2002-11-05-general'', ''governor'')"
  by (simp_all add: contest_key_def Let_def clean_office_president clean_office_governor
      clean_office_plain_president district_offices_def lower_def lower_char_def
      demo_defs sample_defs)

lemma first_of_key_sample:
  "first_of_key (get_raw_results_after_2000 db_sample) = [rr_demo, rr_write_in_2002]"
  by (simp add: filtered_sample contest_key_sample)

lemma build_contests_sample:
  "build_contests demo_make_key demo_clock db_sample [rr_demo, rr_write_in_2002] no_caches 0 =
     Inr (caches_sample, [contest_president_2012, contest_governor_2002])"
  by (simp add: model_defs demo_defs sample_defs)

theorem pass1_one_contest_per_key_witness:
  "first_of_key (get_raw_results_after_2000 db_sample) = [rr_demo, rr_write_in_2002] \<and>
   map contest_key (get_raw_results_after_2000 db_sample) =
     [(''md-2012-11-06-general'', ''president''), (''md-2012-11-06-general'', ''president''),
      (''md-2012-11-06-general'', ''president''), (''md-2002-11-05-general'', ''governor'')] \<and>
   find (\<lambda>x. contest_key x = contest_key rr_demo) (get_raw_results_after_2000 db_sample) =
     Some rr_demo \<and>
   find (\<lambda>x. contest_key x = contest_key rr_write_in_2002)
     (get_raw_results_after_2000 db_sample) = Some rr_write_in_2002 \<and>
   build_contests demo_make_key demo_clock db_sample [rr_demo, rr_write_in_2002] no_caches 0 =
     Inr (caches_sample, [contest_president_2012, contest_governor_2002]) \<and>
   create_unique_contests_after_2000 demo_make_key demo_clock (db_sample, no_caches) =
     Inr (db_sample\<lparr>db_contests := [contest_president_2012, contest_governor_2002]\<rparr>,
          caches_sample, 2)"
proof -
  have c: "db_contests db_sample = []"
    by (simp add: db_sample_def)
  from pass1_one_contest_per_key [of db_sample demo_make_key demo_clock no_caches]
  show ?thesis
    unfolding Let_def first_of_key_sample build_contests_sample
    by (simp add: filtered_sample contest_key_sample c)
qed


section \<open>Write-in flag\<close>

lemma pass1_write_in_2002:
  "create_unique_contests_after_2000 demo_make_key demo_clock (db_write_in_2002, no_caches) =
   Inr (db_write_in_2002\<lparr>db_contests := [contest_write_in_2002]\<rparr>, caches_write_in_2002, 1)"
  by (simp add: model_defs demo_defs)

lemma pass2_write_in_2002:
  "create_unique_candidates_after_2000 demo_make_key demo_HumanName
     (db_write_in_2002\<lparr>db_contests := [contest_write_in_2002]\<rparr>, caches_write_in_2002) =
   Inr (db_write_in_2002\<lparr>db_contests := [contest_write_in_2002],
                          db_candidates := [candidate_write_in_2002]\<rparr>,
        caches_write_in_2002, 1)"
  by (simp add: model_defs demo_defs)

lemma pass3_write_in_2002:
  "map_sum id (\<lambda>(d, cs, n).
       map (\<lambda>res. (res_write_in res, write_in (res_raw_result res),
                    cand_family_name (db_candidates d ! res_candidate res))) (db_results d))
     (create_unique_results_after_2000 demo_HumanName
        (db_write_in_2002\<lparr>db_contests := [contest_write_in_2002],
                          db_candidates := [candidate_write_in_2002]\<rparr>,
         caches_write_in_2002)) =
   Inr [(True, None, None)]"
  by (simp add: model_defs demo_defs)

theorem write_in_flag_counterexample:
  "map_sum id (\<lambda>(d, cs, n).
       map (\<lambda>res. (res_write_in res, write_in (res_raw_result res),
                    cand_family_name (db_candidates d ! res_candidate res))) (db_results d))
     (and_then
        (and_then
           (create_unique_contests_after_2000 demo_make_key demo_clock
              (db_write_in_2002, no_caches))
           (create_unique_candidates_after_2000 demo_make_key demo_HumanName))
        (create_unique_results_after_2000 demo_HumanName)) =
   Inr [(True, None, None)]"
  by (simp only: and_then_def pass1_write_in_2002 pass2_write_in_2002 pass3_write_in_2002
      sum.case prod.case)

text \<open>
  C4, amended. The write-in flag of the Result built for a raw record is true if and only
  if the record's write-in marker is \<open>Y\<close> or the raw record's own family name is the
  legacy sentinel \<open>zz998\<close>; the candidate resolved for the record plays no part.
\<close>

theorem write_in_flag_reads_raw_record:
  "parse_write_in raw = (write_in raw = Some ''Y'' \<or> family_name raw = ''zz998'') \<and>
   (\<forall>res cs' cache'. result_of HumanName d cs cache raw = Inr (res, cs', cache') \<longrightarrow>
      res_write_in res = (write_in raw = Some ''Y'' \<or> family_name raw = ''zz998''))"
  by (auto simp: parse_write_in_def result_of_def split: sum.splits)

lemma result_of_write_in_2002:
  "\<exists>res cs' cache'.
     result_of demo_HumanName
       (db_write_in_2002\<lparr>db_contests := [contest_write_in_2002],
                         db_candidates := [candidate_write_in_2002]\<rparr>)
       caches_write_in_2002 Map.empty rr_write_in_2002 = Inr (res, cs', cache')"
  by (simp add: model_defs demo_defs)

theorem write_in_flag_reads_raw_record_witness:
  "map_sum id (\<lambda>(res, cs', cache'). res_write_in res)
     (result_of demo_HumanName
        (db_write_in_2002\<lparr>db_contests := [contest_write_in_2002],
                          db_candidates := [candidate_write_in_2002]\<rparr>)
        caches_write_in_2002 Map.empty rr_write_in_2002) = Inr True \<and>
   parse_write_in (rr_demo\<lparr>write_in := Some ''Y''\<rparr>) \<and>
   \<not> parse_write_in rr_demo"
proof -
  obtain res cs' cache' where
    r: "result_of demo_HumanName
          (db_write_in_2002\<lparr>db_contests := [contest_write_in_2002],
                            db_candidates := [candidate_write_in_2002]\<rparr>)
          caches_write_in_2002 Map.empty rr_write_in_2002 = Inr (res, cs', cache')"
    using result_of_write_in_2002 by blast
  have f: "family_name rr_write_in_2002 = ''zz998''"
    by (simp add: rr_write_in_2002_def)
  have g: "write_in rr_demo = None" "family_name rr_demo = []"
    by (simp_all add: rr_demo_def)
  from write_in_flag_reads_raw_record
         [of rr_write_in_2002 demo_HumanName
             "db_write_in_2002\<lparr>db_contests := [contest_write_in_2002],
                               db_candidates := [candidate_write_in_2002]\<rparr>"
             caches_write_in_2002 Map.empty] r f
  have "res_write_in res" by simp
  moreover from write_in_flag_reads_raw_record [of "rr_demo\<lparr>write_in := Some ''Y''\<rparr>"]
  have "parse_write_in (rr_demo\<lparr>write_in := Some ''Y''\<rparr>)" by simp
  moreover from write_in_flag_reads_raw_record [of rr_demo] g
  have "\<not> parse_write_in rr_demo" by simp
  ultimately show ?thesis using r by simp
qed

section \<open>Per-run caches\<close>

lemma cache_ok_empty: "cache_ok xs Map.empty"
  by (simp add: cache_ok_def)

lemma cache_ok_update:
  "cache_ok xs cache \<Longrightarrow> fst row < length xs \<Longrightarrow> snd row = xs ! fst row \<Longrightarrow>
   cache_ok xs (cache(k \<mapsto> row))"
  unfolding cache_ok_def by auto

lemma cache_ok_lookup:
  "cache_ok xs cache \<Longrightarrow> cache k = Some row \<Longrightarrow>
   fst row < length xs \<and> snd row = xs ! fst row"
  unfolding cache_ok_def by blast

section \<open>Pass 3\<close>

lemma cached_get_candidate_ok:
  assumes "cached_get_candidate H d cache raw = Inr (row, cache')"
    and "cache_ok (db_candidates d) cache"
  shows "fst row < length (db_candidates d) \<and> snd row = db_candidates d ! fst row \<and>
         cache_ok (db_candidates d) cache'"
proof (cases "cache (candidate_cache_key raw)")
  case (Some c)
  with assms(1) have "row = c" "cache' = cache"
    by (simp_all add: cached_get_candidate_def)
  with cache_ok_lookup [OF assms(2) Some] assms(2) show ?thesis by simp
next
  case None
  with assms(1) obtain flds where
    g: "objects_get (candidate_matches flds) (db_candidates d) = Inr row" and
    c: "cache' = cache(candidate_cache_key raw \<mapsto> row)"
    by (auto simp: cached_get_candidate_def split: sum.splits)
  from objects_get_Inr(1,2) [OF g] c assms(2) show ?thesis
    by (simp add: cache_ok_update)
qed

lemma cached_get_candidate_db_results [simp]:
  "cached_get_candidate H (d\<lparr>db_results := x\<rparr>) cache raw = cached_get_candidate H d cache raw"
  by (simp add: cached_get_candidate_def Let_def cong: option.case_cong sum.case_cong)

lemma get_party_db_results [simp]:
  "get_party (d\<lparr>db_results := x\<rparr>) cs raw attr = get_party d cs raw attr"
  by (simp add: get_party_def Let_def cong: option.case_cong sum.case_cong if_cong)

lemma result_of_db_results [simp]:
  "result_of H (d\<lparr>db_results := x\<rparr>) cs cache raw = result_of H d cs cache raw"
  by (simp add: result_of_def cong: sum.case_cong prod.case_cong)

lemma results_for_db_results [simp]:
  "results_for H (d\<lparr>db_results := x\<rparr>) rrs cs cache = results_for H d rrs cs cache"
  by (induction rrs arbitrary: cs cache) (simp_all split: sum.splits)

lemma result_of_ok:
  assumes "result_of H d cs cache raw = Inr (res, cs', cache')"
    and "cache_ok (db_candidates d) cache"
  shows "res_candidate res < length (db_candidates d)"
    and "res_contest res = cand_contest (db_candidates d ! res_candidate res)"
    and "res_raw_result res = raw"
    and "res_election_id res = election_id raw"
    and "cache_ok (db_candidates d) cache'"
proof -
  from assms(1) obtain cand pty where
    c: "cached_get_candidate H d cache raw = Inr (cand, cache')" and
    r: "res_candidate res = fst cand" "res_contest res = cand_contest (snd cand)"
       "res_raw_result res = raw" "res_election_id res = election_id raw"
    by (auto simp: result_of_def split: sum.splits)
  from cached_get_candidate_ok [OF c assms(2)] r
  show "res_candidate res < length (db_candidates d)"
    and "res_contest res = cand_contest (db_candidates d ! res_candidate res)"
    and "res_raw_result res = raw"
    and "res_election_id res = election_id raw"
    and "cache_ok (db_candidates d) cache'"
    by simp_all
qed

lemma results_for_ok:
  "results_for H d rrs cs cache = Inr (new, cs', cache') \<Longrightarrow>
   cache_ok (db_candidates d) cache \<Longrightarrow>
   map res_raw_result new = rrs \<and>
   map res_election_id new = map election_id rrs \<and>
   (\<forall>r \<in> set new. res_candidate r < length (db_candidates d) \<and>
      res_contest r = cand_contest (db_candidates d ! res_candidate r))"
proof (induction rrs arbitrary: cs cache new)
  case Nil
  then show ?case by simp
next
  case (Cons rr rrs)
  from Cons.prems(1) obtain res cs1 cache1 rest where
    a: "result_of H d cs cache rr = Inr (res, cs1, cache1)" and
    b: "results_for H d rrs cs1 cache1 = Inr (rest, cs', cache')" and
    n: "new = res # rest"
    by (auto split: sum.splits)
  from result_of_ok [OF a Cons.prems(2)] Cons.IH [OF b] n
  show ?case by simp
qed


lemma raw_results_after_2000_update [simp]:
  "get_raw_results_after_2000 (d\<lparr>db_contests := x\<rparr>) = get_raw_results_after_2000 d"
  "get_raw_results_after_2000 (d\<lparr>db_candidates := y\<rparr>) = get_raw_results_after_2000 d"
  "get_raw_results_after_2000 (d\<lparr>db_results := z\<rparr>) = get_raw_results_after_2000 d"
  by (simp_all add: get_raw_results_after_2000_def)

lemma results_after_2000_query_update [simp]:
  "results_after_2000_query (d\<lparr>db_results := z\<rparr>) = results_after_2000_query d"
  by (simp add: results_after_2000_query_def)

lemma results_loop_refines:
  "case results_for H d rrs cs cache of
     Inl e \<Rightarrow> results_loop H rrs d cs cache buf n = Inl e
   | Inr (new, cs', cache') \<Rightarrow>
       \<exists>written buf'.
         results_loop H rrs d cs cache buf n =
           Inr (d\<lparr>db_results := db_results d @ written\<rparr>, cs', cache', buf',
                n + length written) \<and>
         written @ buf' = buf @ new"
proof (induction rrs arbitrary: d cs cache buf n)
  case Nil
  show ?case by simp
next
  case (Cons rr rrs)
  show ?case
  proof (cases "result_of H d cs cache rr")
    case (Inl e)
    then show ?thesis by simp
  next
    case (Inr p)
    obtain res cs1 c1 where p: "p = (res, cs1, c1)" by (cases p)
    note step = Inr [unfolded p]
    show ?thesis
    proof (cases "results_for H d rrs cs1 c1")
      case (Inl e)
      show ?thesis
      proof (cases "length (buf @ [res]) \<ge> bufsiz")
        case True
        from Cons.IH [of "d\<lparr>db_results := db_results d @ buf @ [res]\<rparr>" cs1 c1 "[]"
                         "n + length (buf @ [res])"] Inl
        have "results_loop H rrs (d\<lparr>db_results := db_results d @ buf @ [res]\<rparr>) cs1 c1 []
                (n + length (buf @ [res])) = Inl e"
          by simp
        with step Inl True show ?thesis by (simp add: Let_def)
      next
        case False
        from Cons.IH [of d cs1 c1 "buf @ [res]" n] Inl
        have "results_loop H rrs d cs1 c1 (buf @ [res]) n = Inl e" by simp
        with step Inl False show ?thesis by (simp add: Let_def)
      qed
    next
      case (Inr q)
      obtain rest cs' cache' where q: "q = (rest, cs', cache')" by (cases q)
      note rest = Inr [unfolded q]
      have new: "results_for H d (rr # rrs) cs cache = Inr (res # rest, cs', cache')"
        using step rest by simp
      show ?thesis
      proof (cases "length (buf @ [res]) \<ge> bufsiz")
        case True
        from Cons.IH [of "d\<lparr>db_results := db_results d @ buf @ [res]\<rparr>" cs1 c1 "[]"
                         "n + length (buf @ [res])"] rest
        obtain written buf' where
          l: "results_loop H rrs (d\<lparr>db_results := db_results d @ buf @ [res]\<rparr>) cs1 c1 []
                (n + length (buf @ [res])) =
              Inr (d\<lparr>db_results := db_results d @ buf @ [res] @ written\<rparr>, cs', cache', buf',
                   n + length (buf @ [res]) + length written)" and
          w: "written @ buf' = rest"
          by auto
        have "results_loop H (rr # rrs) d cs cache buf n =
              Inr (d\<lparr>db_results := db_results d @ (buf @ [res] @ written)\<rparr>, cs', cache', buf',
                   n + length (buf @ [res] @ written))"
          using step True l by (simp add: Let_def)
        moreover have "(buf @ [res] @ written) @ buf' = buf @ res # rest"
          using w by simp
        ultimately show ?thesis
          unfolding new by (simp only: sum.case prod.case) blast
      next
        case False
        from Cons.IH [of d cs1 c1 "buf @ [res]" n] rest
        obtain written buf' where
          l: "results_loop H rrs d cs1 c1 (buf @ [res]) n =
              Inr (d\<lparr>db_results := db_results d @ written\<rparr>, cs', cache', buf',
                   n + length written)" and
          w: "written @ buf' = (buf @ [res]) @ rest"
          by auto
        have "results_loop H (rr # rrs) d cs cache buf n =
              Inr (d\<lparr>db_results := db_results d @ written\<rparr>, cs', cache', buf',
                   n + length written)"
          using step False l by (simp add: Let_def)
        moreover have "written @ buf' = buf @ res # rest"
          using w by simp
        ultimately show ?thesis
          unfolding new by (simp only: sum.case prod.case) blast
      qed
    qed
  qed
qed

lemma create_unique_results_refines:
  "create_unique_results_after_2000 H (d, cs) =
     (case results_for H d (get_raw_results_after_2000 d) cs Map.empty of
        Inl e \<Rightarrow> Inl e
      | Inr (new, cs', cache') \<Rightarrow>
          Inr (d\<lparr>db_results :=
                   filter (\<lambda>r. \<not> results_after_2000_query d r) (db_results d) @ new\<rparr>,
               cs', length new))"
proof (cases "results_for H d (get_raw_results_after_2000 d) cs Map.empty")
  case (Inl e)
  from results_loop_refines
         [of H "get_raw_results_after_2000 d"
             "d\<lparr>db_results := filter (\<lambda>r. \<not> results_after_2000_query d r) (db_results d)\<rparr>"
             cs Map.empty "[]" 0] Inl
  show ?thesis
    by (simp add: create_unique_results_after_2000_def Let_def)
next
  case (Inr q)
  obtain new cs' cache' where q: "q = (new, cs', cache')" by (cases q)
  note r = Inr [unfolded q]
  let ?kept = "filter (\<lambda>r. \<not> results_after_2000_query d r) (db_results d)"
  from results_loop_refines
         [of H "get_raw_results_after_2000 d" "d\<lparr>db_results := ?kept\<rparr>" cs Map.empty "[]" 0] r
  obtain written buf' where
    l: "results_loop H (get_raw_results_after_2000 d) (d\<lparr>db_results := ?kept\<rparr>) cs Map.empty [] 0 =
          Inr (d\<lparr>db_results := ?kept @ written\<rparr>, cs', cache', buf', length written)" and
    w: "written @ buf' = new"
    by auto
  have "create_unique_results_after_2000 H (d, cs) =
        Inr (d\<lparr>db_results := ?kept @ written @ buf'\<rparr>, cs', length written + length buf')"
    using l by (simp add: create_unique_results_after_2000_def Let_def)
  with r w show ?thesis by auto
qed

lemma get_party_mono:
  "get_party d cs raw attr = Inr (p, cs1) \<Longrightarrow>
   party_cache cs \<subseteq>\<^sub>m party_cache cs1 \<and> office_cache cs1 = office_cache cs"
  by (auto simp: get_party_def Let_def map_le_def split: if_splits option.splits sum.splits)

lemma get_party_cases:
  assumes "get_party d cs raw attr = Inr (p, cs1)"
  shows "(p = None \<and> (\<forall>d2 cs2. get_party d2 cs2 raw attr = Inr (None, cs2))) \<or>
         (\<exists>a. party_cache cs1 a = p \<and> p \<noteq> None \<and>
              (\<forall>d2 cs2. party_cache cs2 a = p \<longrightarrow> get_party d2 cs2 raw attr = Inr (p, cs2)))"
proof (cases "truthy (attr raw)")
  case False
  with assms show ?thesis by (simp add: get_party_def)
next
  case True
  then obtain x where x: "attr raw = Some x" by (auto simp: truthy_def split: option.splits)
  show ?thesis
  proof (cases "truthy (clean_party x)")
    case False
    with assms True x show ?thesis by (simp add: get_party_def Let_def)
  next
    case c: True
    then obtain a where a: "clean_party x = Some a"
      by (auto simp: truthy_def split: option.splits)
    have later: "get_party d2 cs2 raw attr = Inr (p, cs2)" if "party_cache cs2 a = p" "p \<noteq> None"
      for d2 cs2
      using that True x c a by (auto simp: get_party_def Let_def)
    have "party_cache cs1 a = p \<and> p \<noteq> None"
    proof (cases "party_cache cs a")
      case (Some pty)
      with assms True x c a have "p = Some pty" "cs1 = cs"
        by (simp_all add: get_party_def Let_def)
      with Some show ?thesis by simp
    next
      case None
      with assms True x c a obtain pty where
        "p = Some pty" "cs1 = cs\<lparr>party_cache := (party_cache cs)(a \<mapsto> pty)\<rparr>"
        by (auto simp: get_party_def Let_def split: sum.splits)
      then show ?thesis by simp
    qed
    with later show ?thesis by blast
  qed
qed

lemma get_party_stable:
  assumes "get_party d cs raw attr = Inr (p, cs1)"
    and "party_cache cs1 \<subseteq>\<^sub>m party_cache cs2"
  shows "get_party d2 cs2 raw attr = Inr (p, cs2)"
proof -
  from get_party_cases [OF assms(1)] show ?thesis
  proof
    assume "p = None \<and> (\<forall>d2 cs2. get_party d2 cs2 raw attr = Inr (None, cs2))"
    then show ?thesis by simp
  next
    assume "\<exists>a. party_cache cs1 a = p \<and> p \<noteq> None \<and>
              (\<forall>d2 cs2. party_cache cs2 a = p \<longrightarrow> get_party d2 cs2 raw attr = Inr (p, cs2))"
    then obtain a where a: "party_cache cs1 a = p" "p \<noteq> None"
      and l: "\<And>d2 cs2. party_cache cs2 a = p \<Longrightarrow> get_party d2 cs2 raw attr = Inr (p, cs2)"
      by blast
    from a have "a \<in> dom (party_cache cs1)" by auto
    with assms(2) a have "party_cache cs2 a = p" by (auto simp: map_le_def)
    then show ?thesis by (rule l)
  qed
qed

lemma result_of_mono:
  "result_of H d cs cache raw = Inr (res, cs1, c1) \<Longrightarrow> party_cache cs \<subseteq>\<^sub>m party_cache cs1"
  by (auto simp: result_of_def split: sum.splits dest: get_party_mono)

lemma cached_get_candidate_db:
  "db_candidates d2 = db_candidates d \<Longrightarrow>
   cached_get_candidate H d2 cache raw = cached_get_candidate H d cache raw"
  by (simp add: cached_get_candidate_def Let_def cong: option.case_cong sum.case_cong)

lemma result_of_stable:
  assumes "result_of H d cs cache raw = Inr (res, cs1, c1)"
    and "party_cache cs1 \<subseteq>\<^sub>m party_cache cs2"
    and "db_candidates d2 = db_candidates d"
  shows "result_of H d2 cs2 cache raw = Inr (res, cs2, c1)"
proof -
  from assms(1) obtain cand pty where
    c: "cached_get_candidate H d cache raw = Inr (cand, c1)" and
    g: "get_party d cs raw party = Inr (pty, cs1)"
    by (auto simp: result_of_def split: sum.splits)
  from get_party_stable [OF g assms(2)] have g2: "get_party d2 cs2 raw party = Inr (pty, cs2)" .
  from assms(1) c g g2 cached_get_candidate_db [OF assms(3), of H cache raw]
  show ?thesis
    by (simp add: result_of_def)
qed

lemma results_for_mono:
  "results_for H d rrs cs cache = Inr (new, cs1, c1) \<Longrightarrow> party_cache cs \<subseteq>\<^sub>m party_cache cs1"
proof (induction rrs arbitrary: cs cache new)
  case Nil
  then show ?case by simp
next
  case (Cons rr rrs)
  from Cons.prems obtain res csA cA rest where
    a: "result_of H d cs cache rr = Inr (res, csA, cA)" and
    b: "results_for H d rrs csA cA = Inr (rest, cs1, c1)"
    by (auto split: sum.splits)
  from result_of_mono [OF a] Cons.IH [OF b] show ?case
    by (rule map_le_trans)
qed

lemma results_for_stable:
  "results_for H d rrs cs cache = Inr (new, cs1, c1) \<Longrightarrow>
   party_cache cs1 \<subseteq>\<^sub>m party_cache cs2 \<Longrightarrow> db_candidates d2 = db_candidates d \<Longrightarrow>
   results_for H d2 rrs cs2 cache = Inr (new, cs2, c1)"
proof (induction rrs arbitrary: cs cache new)
  case Nil
  then show ?case by simp
next
  case (Cons rr rrs)
  from Cons.prems(1) obtain res csA cA rest where
    a: "result_of H d cs cache rr = Inr (res, csA, cA)" and
    b: "results_for H d rrs csA cA = Inr (rest, cs1, c1)" and
    n: "new = res # rest"
    by (auto split: sum.splits)
  from results_for_mono [OF b] Cons.prems(2)
  have "party_cache csA \<subseteq>\<^sub>m party_cache cs2" by (rule map_le_trans)
  from result_of_stable [OF a this Cons.prems(3)]
  have a2: "result_of H d2 cs2 cache rr = Inr (res, cs2, cA)" .
  from Cons.IH [OF b Cons.prems(2) Cons.prems(3)]
  have "results_for H d2 rrs cs2 cA = Inr (rest, cs2, c1)" .
  with a2 n show ?case by simp
qed

lemma filtered_sample_loaded:
  "get_raw_results_after_2000 db_sample_loaded =
     [rr_demo, rr_romney, rr_johnson_08, rr_write_in_2002]"
  by (simp add: get_raw_results_after_2000_def datetime_ge_def datetime_parts_def datetime3_def
      demo_defs sample_defs)

lemmas pass_defs =
  Let_def lower_def lower_char_def truthy_def
  objects_get_def opt_matches_def PARTY_MAP_def district_offices_def clean_office_def
  clean_party_def strip_leading_zeros_def get_ocd_id_def parse_winner_def parse_write_in_def
  office_query_of_def office_matches_def get_office_def get_party_def
  get_contest_fields_def contest_key_def
  null_name_def get_candidate_fields_2002_def get_candidate_fields_after_2000_def
  get_candidate_fields_def contest_matches_def contest_cache_key_def cached_get_contest_def
  candidate_matches_def candidate_cache_key_def
  cached_get_candidate_def result_of_def bufsiz_def datetime3_def

lemma query_sample:
  "results_after_2000_query db_sample_loaded r =
     (res_election_id r = ''md-2012-11-06-general'' \<or>
      res_election_id r = ''md-2002-11-05-general'')"
  unfolding results_after_2000_query_def filtered_sample_loaded
  by (simp add: demo_defs sample_defs)

lemma pass3_sample:
  "map_sum id (\<lambda>(d', cs', n).
       (n, map res_election_id (db_results d'),
        map res_candidate (db_results d'), map res_contest (db_results d'),
        map res_party (db_results d')))
     (create_unique_results_after_2000 demo_HumanName (db_sample_loaded, caches_sample)) =
   Inr (4,
        [''md-2000-11-07-general'', ''md-2012-11-06-general'', ''md-2012-11-06-general'',
         ''md-2012-11-06-general'', ''md-2002-11-05-general''],
        [0, 0, 1, 2, 3], [Some 0, Some 0, Some 0, Some 0, Some 1],
        [None, Some ''DEM'', Some ''REP'', Some ''LIB'', None])"
  unfolding create_unique_results_after_2000_def
  apply (simp add: filtered_sample_loaded query_sample)
  apply (simp add: pass_defs demo_defs sample_defs)
  done


lemma results_for_in_scope:
  assumes "map res_election_id new = map election_id (get_raw_results_after_2000 d)"
    and "r \<in> set new"
  shows "results_after_2000_query d r"
proof -
  from assms(2) have "res_election_id r \<in> set (map res_election_id new)" by simp
  with assms(1) show ?thesis
    by (simp add: results_after_2000_query_def)
qed

text \<open>
  C7. A run of Pass 3 that returns has removed every stored Result whose election is in
  the filtered scope and appended, after what was left, exactly one Result for each
  filtered raw record, in stream order, duplicates included; the count it reports and the
  number of Results then in scope are both the number of filtered raw records. Run again
  on the store and caches it left, Pass 3 returns the same store, the same caches and the
  same count.
\<close>

theorem pass3_replaces_results_idempotently:
  assumes "create_unique_results_after_2000 HumanName (d, cs) = Inr (d', cs', n)"
  shows "n = length (get_raw_results_after_2000 d) \<and>
         (\<exists>new. d' = d\<lparr>db_results :=
                          filter (\<lambda>r. \<not> results_after_2000_query d r) (db_results d) @ new\<rparr> \<and>
                map res_raw_result new = get_raw_results_after_2000 d) \<and>
         length (get_results_after_2000 d') = n \<and>
         create_unique_results_after_2000 HumanName (d', cs') = Inr (d', cs', n)"
proof -
  let ?rrs = "get_raw_results_after_2000 d"
  let ?q = "results_after_2000_query d"
  let ?kept = "filter (\<lambda>r. \<not> ?q r) (db_results d)"
  from assms create_unique_results_refines [of HumanName d cs]
  obtain new cache' where
    rf: "results_for HumanName d ?rrs cs Map.empty = Inr (new, cs', cache')" and
    d': "d' = d\<lparr>db_results := ?kept @ new\<rparr>" and
    n: "n = length new"
    by (auto split: sum.splits)
  from results_for_ok [OF rf cache_ok_empty]
  have raw: "map res_raw_result new = ?rrs"
    and ids: "map res_election_id new = map election_id ?rrs"
    by simp_all
  from raw have len: "length new = length ?rrs"
    by (metis length_map)
  have scope: "\<forall>r \<in> set new. ?q r"
    using results_for_in_scope [OF ids] by blast
  have q': "results_after_2000_query d' = ?q"
    by (simp add: d')
  have rrs': "get_raw_results_after_2000 d' = ?rrs"
    by (simp add: d')
  have fq: "filter ?q new = new" "filter (\<lambda>r. \<not> ?q r) new = []"
    using scope by (simp_all add: filter_id_conv filter_empty_conv)
  have fk: "filter ?q ?kept = []" "filter (\<lambda>r. \<not> ?q r) ?kept = ?kept"
    by (simp_all add: filter_empty_conv)
  have count: "length (get_results_after_2000 d') = n"
    by (simp add: get_results_after_2000_def q' d' n fq fk)
  have "party_cache cs' \<subseteq>\<^sub>m party_cache cs'" by simp
  from results_for_stable [OF rf this, of d]
  have "results_for HumanName d ?rrs cs' Map.empty = Inr (new, cs', cache')" by simp
  then have rf': "results_for HumanName d' ?rrs cs' Map.empty = Inr (new, cs', cache')"
    by (simp add: d')
  have "create_unique_results_after_2000 HumanName (d', cs') =
        Inr (d'\<lparr>db_results := filter (\<lambda>r. \<not> ?q r) (db_results d') @ new\<rparr>, cs', length new)"
    using create_unique_results_refines [of HumanName d' cs'] rf'
    by (simp add: rrs' q')
  also have "filter (\<lambda>r. \<not> ?q r) (db_results d') = ?kept"
    by (simp add: d' fq fk)
  also have "d'\<lparr>db_results := ?kept @ new\<rparr> = d'"
    by (simp add: d')
  finally have again: "create_unique_results_after_2000 HumanName (d', cs') = Inr (d', cs', n)"
    by (simp add: n)
  from n len d' raw count again show ?thesis by blast
qed

lemma pass3_sample_returns:
  "\<exists>d' cs' n.
     create_unique_results_after_2000 demo_HumanName (db_sample_loaded, caches_sample) =
       Inr (d', cs', n)"
  using pass3_sample
  by (cases "create_unique_results_after_2000 demo_HumanName (db_sample_loaded, caches_sample)")
    auto

theorem pass3_replaces_results_idempotently_witness:
  "map_sum id (\<lambda>(d', cs', n). (n, map res_election_id (db_results d')))
     (create_unique_results_after_2000 demo_HumanName (db_sample_loaded, caches_sample)) =
     Inr (4, [''md-2000-11-07-general'', ''md-2012-11-06-general'', ''md-2012-11-06-general'',
              ''md-2012-11-06-general'', ''md-2002-11-05-general'']) \<and>
   map_sum id (\<lambda>(d', cs', n). (n, length (get_results_after_2000 d'),
                                 map res_raw_result (drop 1 (db_results d'))))
     (create_unique_results_after_2000 demo_HumanName (db_sample_loaded, caches_sample)) =
     Inr (4, 4, [rr_demo, rr_romney, rr_johnson_08, rr_write_in_2002]) \<and>
   and_then (create_unique_results_after_2000 demo_HumanName (db_sample_loaded, caches_sample))
     (create_unique_results_after_2000 demo_HumanName) =
     create_unique_results_after_2000 demo_HumanName (db_sample_loaded, caches_sample)"
proof -
  from pass3_sample_returns obtain d' cs' n where
    r: "create_unique_results_after_2000 demo_HumanName (db_sample_loaded, caches_sample) =
          Inr (d', cs', n)"
    by blast
  have kept: "filter (\<lambda>r. \<not> results_after_2000_query db_sample_loaded r)
                (db_results db_sample_loaded) = [res_other]"
    by (simp add: query_sample) (simp add: sample_defs)
  from pass3_replaces_results_idempotently [OF r] obtain new where
    n: "n = length (get_raw_results_after_2000 db_sample_loaded)" and
    d': "d' = db_sample_loaded\<lparr>db_results := [res_other] @ new\<rparr>" and
    raw: "map res_raw_result new = get_raw_results_after_2000 db_sample_loaded" and
    count: "length (get_results_after_2000 d') = n" and
    again: "create_unique_results_after_2000 demo_HumanName (d', cs') = Inr (d', cs', n)"
    unfolding kept by blast
  from pass3_sample r have "map res_election_id (db_results d') =
      [''md-2000-11-07-general'', ''md-2012-11-06-general'', ''md-2012-11-06-general'',
       ''md-2012-11-06-general'', ''md-2002-11-05-general'']"
    by simp
  with r n d' raw count again show ?thesis
    by (simp add: filtered_sample_loaded and_then_def)
qed

text \<open>
  C6. Every Result that Pass 3 builds refers to a Candidate of the store and carries that
  Candidate's contest: this holds for the Results a returning run has appended to the
  store, and, after any number of records of the stream, for the Results written so far
  and for those waiting in the buffer.
\<close>

theorem result_contest_is_candidate_contest:
  "(\<forall>d' cs' n.
      create_unique_results_after_2000 HumanName (d, cs) = Inr (d', cs', n) \<longrightarrow>
      (\<exists>new. db_results d' =
               filter (\<lambda>r. \<not> results_after_2000_query d r) (db_results d) @ new \<and>
             db_candidates d' = db_candidates d \<and>
             (\<forall>r \<in> set new.
                res_candidate r < length (db_candidates d') \<and>
                res_contest r = cand_contest (db_candidates d' ! res_candidate r)))) \<and>
   (\<forall>k d2 cs2 cache buf m.
      results_loop HumanName (take k (get_raw_results_after_2000 d))
        (d\<lparr>db_results := filter (\<lambda>r. \<not> results_after_2000_query d r) (db_results d)\<rparr>)
        cs Map.empty [] 0 = Inr (d2, cs2, cache, buf, m) \<longrightarrow>
      (\<exists>written. db_results d2 =
                   filter (\<lambda>r. \<not> results_after_2000_query d r) (db_results d) @ written \<and>
                 db_candidates d2 = db_candidates d \<and>
                 (\<forall>r \<in> set (written @ buf).
                    res_candidate r < length (db_candidates d2) \<and>
                    res_contest r = cand_contest (db_candidates d2 ! res_candidate r))))"
proof (intro conjI allI impI)
  fix d' cs' n
  assume run: "create_unique_results_after_2000 HumanName (d, cs) = Inr (d', cs', n)"
  let ?kept = "filter (\<lambda>r. \<not> results_after_2000_query d r) (db_results d)"
  from run create_unique_results_refines [of HumanName d cs]
  obtain new cache' where
    rf: "results_for HumanName d (get_raw_results_after_2000 d) cs Map.empty =
           Inr (new, cs', cache')" and
    d': "d' = d\<lparr>db_results := ?kept @ new\<rparr>"
    by (auto split: sum.splits)
  from results_for_ok [OF rf cache_ok_empty] d'
  show "\<exists>new. db_results d' = ?kept @ new \<and> db_candidates d' = db_candidates d \<and>
          (\<forall>r \<in> set new.
             res_candidate r < length (db_candidates d') \<and>
             res_contest r = cand_contest (db_candidates d' ! res_candidate r))"
    by simp
next
  fix k d2 cs2 cache buf m
  let ?kept = "filter (\<lambda>r. \<not> results_after_2000_query d r) (db_results d)"
  let ?d1 = "d\<lparr>db_results := ?kept\<rparr>"
  let ?rrs = "take k (get_raw_results_after_2000 d)"
  assume loop: "results_loop HumanName ?rrs ?d1 cs Map.empty [] 0 = Inr (d2, cs2, cache, buf, m)"
  show "\<exists>written. db_results d2 = ?kept @ written \<and> db_candidates d2 = db_candidates d \<and>
          (\<forall>r \<in> set (written @ buf).
             res_candidate r < length (db_candidates d2) \<and>
             res_contest r = cand_contest (db_candidates d2 ! res_candidate r))"
  proof (cases "results_for HumanName ?d1 ?rrs cs Map.empty")
    case (Inl e)
    with results_loop_refines [of HumanName ?rrs ?d1 cs Map.empty "[]" 0] loop
    show ?thesis by simp
  next
    case (Inr q)
    obtain new cs' cache' where q: "q = (new, cs', cache')" by (cases q)
    note rf = Inr [unfolded q]
    from results_loop_refines [of HumanName ?rrs ?d1 cs Map.empty "[]" 0] rf loop
    obtain written where
      d2: "d2 = ?d1\<lparr>db_results := db_results ?d1 @ written\<rparr>" and
      w: "written @ buf = new"
      by auto
    have ok: "cache_ok (db_candidates ?d1) Map.empty" by (rule cache_ok_empty)
    from results_for_ok [OF rf ok] d2 w show ?thesis by auto
  qed
qed

theorem result_contest_is_candidate_contest_witness:
  "map_sum id (\<lambda>(d', cs', n).
       (map (\<lambda>r. res_contest r) (drop 1 (db_results d')),
        map (\<lambda>r. cand_contest (db_candidates d' ! res_candidate r)) (drop 1 (db_results d'))))
     (create_unique_results_after_2000 demo_HumanName (db_sample_loaded, caches_sample)) =
     Inr ([Some 0, Some 0, Some 0, Some 1], [Some 0, Some 0, Some 0, Some 1])"
proof -
  from pass3_sample_returns obtain d' cs' n where
    r: "create_unique_results_after_2000 demo_HumanName (db_sample_loaded, caches_sample) =
          Inr (d', cs', n)"
    by blast
  have kept: "filter (\<lambda>r. \<not> results_after_2000_query db_sample_loaded r)
                (db_results db_sample_loaded) = [res_other]"
    by (simp add: query_sample) (simp add: sample_defs)
  from result_contest_is_candidate_contest [of demo_HumanName db_sample_loaded caches_sample] r
  obtain new where
    d': "db_results d' = [res_other] @ new" and
    c: "db_candidates d' = db_candidates db_sample_loaded" and
    p: "\<forall>r \<in> set new. res_contest r = cand_contest (db_candidates d' ! res_candidate r)"
    unfolding kept by blast
  from p have same: "map (\<lambda>r. cand_contest (db_candidates d' ! res_candidate r)) new =
      map (\<lambda>r. res_contest r) new"
    by simp
  from pass3_sample r d' have "map (\<lambda>r. res_contest r) new = [Some 0, Some 0, Some 0, Some 1]"
    by simp
  with r d' same show ?thesis by simp
qed

lemma pass2_sample:
  "create_unique_candidates_after_2000 demo_make_key demo_HumanName
     (db_sample\<lparr>db_contests := [contest_president_2012, contest_governor_2002]\<rparr>,
      caches_sample) =
   Inr (db_sample_loaded, caches_sample, 4)"
  unfolding create_unique_candidates_after_2000_def
  apply (simp add: filtered_sample)
  apply (simp add: pass_defs demo_defs sample_defs)
  done

section \<open>Pass 2\<close>

lemma caches_le_refl: "caches_le cs cs"
  by (simp add: caches_le_def)

lemma caches_le_trans: "caches_le a b \<Longrightarrow> caches_le b c \<Longrightarrow> caches_le a c"
  unfolding caches_le_def by (blast intro: map_le_trans)

lemma get_office_cases:
  assumes "get_office mk d cs raw = Inr (off, cs1)"
  shows "\<exists>q. office_query_of raw = Inr q \<and> office_cache cs1 (mk q) = Some off \<and>
             office_cache cs \<subseteq>\<^sub>m office_cache cs1 \<and> party_cache cs1 = party_cache cs"
proof -
  from assms obtain q where q: "office_query_of raw = Inr q"
    by (auto simp: get_office_def split: sum.splits)
  show ?thesis
  proof (cases "office_cache cs (mk q)")
    case (Some c)
    with assms q have "off = c" "cs1 = cs"
      by (simp_all add: get_office_def)
    with q Some show ?thesis by simp
  next
    case None
    with assms q have "cs1 = cs\<lparr>office_cache := (office_cache cs)(mk q \<mapsto> off)\<rparr>"
      by (auto simp: get_office_def Let_def split: sum.splits if_splits)
    with q None show ?thesis by (auto simp: map_le_def)
  qed
qed

lemma get_office_stable:
  assumes "get_office mk d cs raw = Inr (off, cs1)"
    and "office_cache cs1 \<subseteq>\<^sub>m office_cache cs2"
  shows "get_office mk d2 cs2 raw = Inr (off, cs2)"
proof -
  from get_office_cases [OF assms(1)] obtain q where
    q: "office_query_of raw = Inr q" and c: "office_cache cs1 (mk q) = Some off"
    by blast
  from c have "mk q \<in> dom (office_cache cs1)" by auto
  with assms(2) c have "office_cache cs2 (mk q) = Some off" by (auto simp: map_le_def)
  with q show ?thesis by (simp add: get_office_def)
qed

lemma get_contest_fields_parts:
  assumes "get_contest_fields mk d cs raw = Inr (flds, cs1)"
  obtains off csA pty where
    "get_office mk d cs raw = Inr (off, csA)"
    "get_party d csA raw primary_party = Inr (pty, cs1)"
    "flds =
       \<lparr>c_source = Some (source raw), c_election_id = election_id raw, c_state = state raw,
        c_start_date = start_date raw, c_end_date = end_date raw,
        c_election_type = election_type raw,
        c_primary_type = (if \<not> truthy (primary_type raw) then None else primary_type raw),
        c_result_type = result_type raw, c_special = special raw, c_office = fst off,
        c_primary_party = map_option fst pty, c_created = None, c_updated = None\<rparr>"
  using assms by (auto simp: get_contest_fields_def split: sum.splits)

lemma get_contest_fields_mono:
  assumes "get_contest_fields mk d cs raw = Inr (flds, cs1)"
  shows "caches_le cs cs1"
proof -
  from assms obtain off csA pty where
    o: "get_office mk d cs raw = Inr (off, csA)" and
    p: "get_party d csA raw primary_party = Inr (pty, cs1)"
    by (rule get_contest_fields_parts)
  from get_office_cases [OF o] get_party_mono [OF p] show ?thesis
    by (auto simp: caches_le_def)
qed

lemma get_contest_fields_stable:
  assumes "get_contest_fields mk d cs raw = Inr (flds, cs1)"
    and "caches_le cs1 cs2"
  shows "get_contest_fields mk d2 cs2 raw = Inr (flds, cs2)"
proof -
  from assms(1) obtain off csA pty where
    o: "get_office mk d cs raw = Inr (off, csA)" and
    p: "get_party d csA raw primary_party = Inr (pty, cs1)" and
    f: "flds =
       \<lparr>c_source = Some (source raw), c_election_id = election_id raw, c_state = state raw,
        c_start_date = start_date raw, c_end_date = end_date raw,
        c_election_type = election_type raw,
        c_primary_type = (if \<not> truthy (primary_type raw) then None else primary_type raw),
        c_result_type = result_type raw, c_special = special raw, c_office = fst off,
        c_primary_party = map_option fst pty, c_created = None, c_updated = None\<rparr>"
    by (rule get_contest_fields_parts)
  from get_party_mono [OF p] assms(2)
  have "office_cache csA \<subseteq>\<^sub>m office_cache cs2" and pc: "party_cache cs1 \<subseteq>\<^sub>m party_cache cs2"
    by (simp_all add: caches_le_def)
  from get_office_stable [OF o this(1)] have o2: "get_office mk d2 cs2 raw = Inr (off, cs2)" .
  from get_party_stable [OF p pc]
  have p2: "get_party d2 cs2 raw primary_party = Inr (pty, cs2)" .
  from o2 p2 f show ?thesis by (simp add: get_contest_fields_def)
qed

lemma same_contest_fields_office:
  "same_contest_fields r f \<Longrightarrow> get_office mk d cs r = get_office mk d cs f"
  by (simp add: same_contest_fields_def get_office_def)

lemma same_contest_fields_party:
  "same_contest_fields r f \<Longrightarrow>
   get_party d cs r primary_party = get_party d cs f primary_party"
  by (simp add: same_contest_fields_def get_party_def)

lemma same_contest_fields_get:
  assumes "same_contest_fields r f"
    and "get_contest_fields mk d cs f = Inr (flds, cs1)"
  shows "get_contest_fields mk d cs r = Inr (flds\<lparr>c_source := Some (source r)\<rparr>, cs1)"
proof -
  from assms(2) obtain off csA pty where
    o: "get_office mk d cs f = Inr (off, csA)" and
    p: "get_party d csA f primary_party = Inr (pty, cs1)" and
    f: "flds =
       \<lparr>c_source = Some (source f), c_election_id = election_id f, c_state = state f,
        c_start_date = start_date f, c_end_date = end_date f,
        c_election_type = election_type f,
        c_primary_type = (if \<not> truthy (primary_type f) then None else primary_type f),
        c_result_type = result_type f, c_special = special f, c_office = fst off,
        c_primary_party = map_option fst pty, c_created = None, c_updated = None\<rparr>"
    by (rule get_contest_fields_parts)
  from o same_contest_fields_office [OF assms(1), of mk d cs]
  have o': "get_office mk d cs r = Inr (off, csA)" by simp
  from p same_contest_fields_party [OF assms(1), of d csA]
  have p': "get_party d csA r primary_party = Inr (pty, cs1)" by simp
  from assms(1) have eqs:
    "election_id r = election_id f" "state r = state f" "start_date r = start_date f"
    "end_date r = end_date f" "election_type r = election_type f"
    "(if \<not> truthy (primary_type r) then None else primary_type r) =
       (if \<not> truthy (primary_type f) then None else primary_type f)"
    "result_type r = result_type f" "special r = special f"
    by (simp_all add: same_contest_fields_def)
  show ?thesis
    by (simp add: get_contest_fields_def o' p' f eqs)
qed

lemma build_contests_mono:
  "build_contests mk clock d fs cs n = Inr (cs', new) \<Longrightarrow> caches_le cs cs'"
proof (induction fs arbitrary: cs n new)
  case Nil
  then show ?case by (simp add: caches_le_refl)
next
  case (Cons f fs)
  from Cons.prems obtain flds cs1 rest where
    g: "get_contest_fields mk d cs f = Inr (flds, cs1)" and
    r: "build_contests mk clock d fs cs1 (Suc n) = Inr (cs', rest)"
    by (auto split: sum.splits)
  from get_contest_fields_mono [OF g] Cons.IH [OF r] show ?case
    by (rule caches_le_trans)
qed

lemma build_contests_nth_fields:
  "build_contests mk clock d fs cs n = Inr (cs', new) \<Longrightarrow> i < length fs \<Longrightarrow>
   \<exists>csA csB flds.
     get_contest_fields mk d csA (fs ! i) = Inr (flds, csB) \<and> caches_le csB cs' \<and>
     new ! i = flds\<lparr>c_created := Some (clock (n + i)), c_updated := Some (clock (n + i))\<rparr>"
proof (induction fs arbitrary: cs n new i)
  case Nil
  then show ?case by simp
next
  case (Cons f fs)
  from Cons.prems(1) obtain flds cs1 rest where
    g: "get_contest_fields mk d cs f = Inr (flds, cs1)" and
    r: "build_contests mk clock d fs cs1 (Suc n) = Inr (cs', rest)" and
    n: "new = flds\<lparr>c_created := Some (clock n), c_updated := Some (clock n)\<rparr> # rest"
    by (auto split: sum.splits)
  show ?case
  proof (cases i)
    case 0
    from build_contests_mono [OF r] g n 0 show ?thesis by auto
  next
    case (Suc j)
    with Cons.prems(2) have "j < length fs" by simp
    from Cons.IH [OF r this] n Suc show ?thesis by simp
  qed
qed

lemma cached_get_contest_mono:
  "cached_get_contest mk d cs cache raw = Inr (row, cs', cache') \<Longrightarrow> caches_le cs cs'"
  by (auto simp: cached_get_contest_def Let_def caches_le_refl
      split: option.splits sum.splits dest: get_contest_fields_mono)

lemma candidates_loop_mono:
  "candidates_loop mk H d rrs cs cache cands seen = Inr (cs', cache', cands', seen') \<Longrightarrow>
   caches_le cs cs'"
proof (induction rrs arbitrary: cs cache cands seen)
  case Nil
  then show ?case by (simp add: caches_le_refl)
next
  case (Cons rr rrs)
  show ?case
  proof (cases "(election_id rr, candidate_slug rr) \<in> seen")
    case True
    with Cons.prems have "candidates_loop mk H d rrs cs cache cands seen =
        Inr (cs', cache', cands', seen')"
      by simp
    then show ?thesis by (rule Cons.IH)
  next
    case False
    with Cons.prems obtain flds c cs1 cache1 cands1 where
      g: "cached_get_contest mk d cs cache rr = Inr (c, cs1, cache1)" and
      l: "candidates_loop mk H d rrs cs1 cache1 cands1
            (insert (election_id rr, candidate_slug rr) seen) = Inr (cs', cache', cands', seen')"
      by (auto simp: Let_def split: sum.splits)
    from cached_get_contest_mono [OF g] Cons.IH [OF l] show ?thesis
      by (rule caches_le_trans)
  qed
qed

lemma contest_matches_built:
  "c_created flds = None \<Longrightarrow> c_updated flds = None \<Longrightarrow>
   contest_matches (flds\<lparr>c_source := None\<rparr>) (flds\<lparr>c_created := t, c_updated := u\<rparr>)"
  by (simp add: contest_matches_def opt_matches_def split: option.splits)

lemma filtered_clash:
  "get_raw_results_after_2000 db_clash = [rr_primary_dem, rr_primary_rep]"
  by (simp add: get_raw_results_after_2000_def datetime_ge_def datetime_parts_def datetime3_def
      demo_defs sample_defs)

lemma clean_office_judge:
  "clean_office ''Judge of the Circuit Court'' = ''Judge of the Circuit Court''"
  by (simp add: clean_office_def lower_def lower_char_def)

lemma contest_key_clash:
  "contest_key rr_primary_dem = (''md-2012-04-03-primary'', ''judge-of-the-circuit-court-3'')"
  "contest_key rr_primary_rep = (''md-2012-04-03-primary'', ''judge-of-the-circuit-court'')"
  by (simp_all add: contest_key_def Let_def clean_office_judge district_offices_def
      lower_def lower_char_def demo_defs sample_defs)

lemma first_of_key_clash:
  "first_of_key (get_raw_results_after_2000 db_clash) = [rr_primary_dem, rr_primary_rep]"
  by (simp add: filtered_clash contest_key_clash)

lemma pass12_clash:
  "map_sum id (\<lambda>(d, cs, n).
       (map c_primary_party (db_contests d),
        map (\<lambda>c. (cand_full_name c, cand_contest c)) (db_candidates d)))
     (and_then
        (create_unique_contests_after_2000 demo_make_key demo_clock (db_clash, no_caches))
        (create_unique_candidates_after_2000 demo_make_key demo_HumanName)) =
   Inr ([Some 0, Some 1], [(''Ann Adams'', Some 0), (''Bob Brown'', Some 0)])"
  by (simp add: model_defs demo_defs sample_defs)

lemma uncached_lookup_clash:
  "(case create_unique_contests_after_2000 demo_make_key demo_clock (db_clash, no_caches) of
      Inl e \<Rightarrow> Inl e
    | Inr (d1, cs1, n) \<Rightarrow>
        map_sum id (\<lambda>(row, cs, cache). fst row)
          (cached_get_contest demo_make_key d1 cs1 Map.empty rr_primary_rep)) = Inr 1"
  by (simp add: model_defs demo_defs sample_defs)

text \<open>
  C2. The Contest attached to a Candidate in Pass 2 should be the row Pass 1 created for
  the record's (election id, corrected slug) key. The per-run cache of
  \<^verbatim>\<open>cached_get_contest\<close> is keyed by the election id and the slug as it stands, without the
  correction \<^verbatim>\<open>contest_key\<close> applies. On the two rows of \<open>db_clash\<close>, which share a slug
  and of which only the second carries a district, Pass 1 creates two Contests, one for
  each corrected key; Pass 2 serves the second row from the cache entry of the first and
  attaches its Candidate to Contest 0, although Pass 1 created Contest 1 for its key, and
  although the lookup by field set, not served from the cache, returns Contest 1.
\<close>

theorem pass2_cache_hit_attaches_other_contest:
  "get_raw_results_after_2000 db_clash = [rr_primary_dem, rr_primary_rep] \<and>
   contest_key rr_primary_dem =
     (''md-2012-04-03-primary'', ''judge-of-the-circuit-court-3'') \<and>
   contest_key rr_primary_rep = (''md-2012-04-03-primary'', ''judge-of-the-circuit-court'') \<and>
   contest_cache_key rr_primary_dem = contest_cache_key rr_primary_rep \<and>
   full_name rr_primary_rep = ''Bob Brown'' \<and>
   map_sum id (\<lambda>(d, cs, n).
       (map c_primary_party (db_contests d),
        map (\<lambda>c. (cand_full_name c, cand_contest c)) (db_candidates d)))
     (and_then
        (create_unique_contests_after_2000 demo_make_key demo_clock (db_clash, no_caches))
        (create_unique_candidates_after_2000 demo_make_key demo_HumanName)) =
     Inr ([Some 0, Some 1], [(''Ann Adams'', Some 0), (''Bob Brown'', Some 0)]) \<and>
   (case create_unique_contests_after_2000 demo_make_key demo_clock (db_clash, no_caches) of
      Inl e \<Rightarrow> Inl e
    | Inr (d1, cs1, n) \<Rightarrow>
        map_sum id (\<lambda>(row, cs, cache). fst row)
          (cached_get_contest demo_make_key d1 cs1 Map.empty rr_primary_rep)) = Inr 1"
proof -
  have k: "contest_cache_key rr_primary_dem = contest_cache_key rr_primary_rep"
    by (simp add: contest_cache_key_def rr_primary_rep_def)
  have n: "full_name rr_primary_rep = ''Bob Brown''"
    by (simp add: rr_primary_rep_def)
  from filtered_clash contest_key_clash k n pass12_clash uncached_lookup_clash
  show ?thesis by (intro conjI)
qed

text \<open>
  The lookup by field set itself agrees with Pass 1. Take a raw record in the state
  Pass 2 has reached when it comes to it, after a Pass 1 that returned. If the lookup is
  not served from the per-run cache, the record agrees on the contest-level fields (the
  source aside) with the first record in stream order bearing its (election id, corrected
  slug) key, and the lookup returns, then the Contest returned is the row Pass 1 created
  for that key: the row appended at the position of that first record among the first
  records.
\<close>

lemma uncached_contest_lookup_is_pass1_row:
  assumes pass1:
      "create_unique_contests_after_2000 make_key clock (d, cs) = Inr (d1, cs1, n1)"
    and state:
      "candidates_loop make_key HumanName d1 (take k (get_raw_results_after_2000 d1)) cs1
         Map.empty [] {} = Inr (cs2, cache, cands, seen)"
    and nth: "k < length (get_raw_results_after_2000 d1)"
      "r = get_raw_results_after_2000 d1 ! k"
    and first: "find (\<lambda>x. contest_key x = contest_key r) (get_raw_results_after_2000 d1) = Some f"
    and same: "same_contest_fields r f"
    and miss: "cache (contest_cache_key r) = None"
    and lookup: "cached_get_contest make_key d1 cs2 cache r = Inr (row, cs3, cache')"
  shows "\<exists>i < length (first_of_key (get_raw_results_after_2000 d)).
           first_of_key (get_raw_results_after_2000 d) ! i = f \<and>
           fst row = length (db_contests d) + i \<and>
           snd row = db_contests d1 ! fst row \<and>
           c_created (snd row) = Some (clock i)"
proof -
  let ?rrs = "get_raw_results_after_2000 d"
  let ?firsts = "first_of_key ?rrs"
  from pass1 create_unique_contests_refines [of make_key clock d cs]
  obtain new where
    bc: "build_contests make_key clock d ?firsts cs 0 = Inr (cs1, new)" and
    d1: "d1 = d\<lparr>db_contests := db_contests d @ new\<rparr>"
    by (auto split: sum.splits)
  have rrs1: "get_raw_results_after_2000 d1 = ?rrs"
    by (simp add: d1)
  from first have "f \<in> set ?firsts"
    unfolding rrs1 by (rule first_of_key_find)
  then obtain i where i: "i < length ?firsts" and fi: "?firsts ! i = f"
    by (auto simp: in_set_conv_nth)
  from build_contests_nth_fields [OF bc i] fi obtain csA csB flds where
    g: "get_contest_fields make_key d csA f = Inr (flds, csB)" and
    le: "caches_le csB cs1" and
    ni: "new ! i = flds\<lparr>c_created := Some (clock i), c_updated := Some (clock i)\<rparr>"
    by auto
  from build_contests_length [OF bc] i have il: "i < length new" by simp
  from le candidates_loop_mono [OF state] have "caches_le csB cs2"
    by (rule caches_le_trans)
  from get_contest_fields_stable [OF g this]
  have "get_contest_fields make_key d1 cs2 f = Inr (flds, cs2)" .
  from same_contest_fields_get [OF same this]
  have gr: "get_contest_fields make_key d1 cs2 r = Inr (flds\<lparr>c_source := Some (source r)\<rparr>, cs2)" .
  from lookup miss gr
  have og: "objects_get (contest_matches (flds\<lparr>c_source := None\<rparr>)) (db_contests d1) = Inr row"
    by (auto simp: cached_get_contest_def Let_def split: sum.splits)
  from g have none: "c_created flds = None" "c_updated flds = None"
    by (auto elim!: get_contest_fields_parts)
  have at: "db_contests d1 ! (length (db_contests d) + i) = new ! i"
    by (simp add: d1)
  have "contest_matches (flds\<lparr>c_source := None\<rparr>) (db_contests d1 ! (length (db_contests d) + i))"
    unfolding at ni
    using none by (rule contest_matches_built)
  moreover have "length (db_contests d) + i < length (db_contests d1)"
    using il by (simp add: d1)
  ultimately have pos: "length (db_contests d) + i = fst row"
    using objects_get_Inr(4) [OF og] by blast
  from objects_get_Inr(2) [OF og] have sr: "snd row = db_contests d1 ! fst row" .
  from sr pos at ni have "c_created (snd row) = Some (clock i)" by simp
  with i fi pos sr show ?thesis by auto
qed

lemma pass1_sample:
  "create_unique_contests_after_2000 demo_make_key demo_clock (db_sample, no_caches) =
     Inr (db_sample\<lparr>db_contests := [contest_president_2012, contest_governor_2002]\<rparr>,
          caches_sample, 2)"
proof -
  have c: "db_contests db_sample = []"
    by (simp add: db_sample_def)
  show ?thesis
    unfolding create_unique_contests_refines first_of_key_sample build_contests_sample
    by (simp add: c)
qed

lemma candidates_loop_sample:
  "map_sum id (\<lambda>(cs2, cache, cands, seen). (cs2, cache, cands))
     (candidates_loop demo_make_key demo_HumanName
        (db_sample\<lparr>db_contests := [contest_president_2012, contest_governor_2002]\<rparr>)
        [rr_demo, rr_romney] caches_sample Map.empty [] {}) =
   Inr (caches_sample, contest_cache_sample, [cand_obama, cand_romney])"
  by (simp add: pass_defs demo_defs sample_defs)

lemma cached_get_contest_sample:
  "cached_get_contest demo_make_key
     (db_sample\<lparr>db_contests := [contest_president_2012, contest_governor_2002]\<rparr>)
     caches_sample contest_cache_sample rr_johnson_08 =
   Inr ((0, contest_president_2012), caches_sample,
        contest_cache_sample(''md-2012-11-06-general-president-08'' \<mapsto>
          (0, contest_president_2012)))"
  by (simp add: pass_defs demo_defs sample_defs)

lemma same_contest_fields_sample: "same_contest_fields rr_johnson_08 rr_demo"
  by (simp add: same_contest_fields_def office_query_of_def clean_office_president
      clean_office_plain_president district_offices_def demo_defs sample_defs)

lemma uncached_contest_lookup_is_pass1_row_example:
  "find (\<lambda>x. contest_key x = contest_key rr_johnson_08)
     (get_raw_results_after_2000 db_sample) = Some rr_demo \<and>
   same_contest_fields rr_johnson_08 rr_demo \<and>
   contest_cache_sample (contest_cache_key rr_johnson_08) = None \<and>
   first_of_key (get_raw_results_after_2000 db_sample) ! 0 = rr_demo \<and>
   map_sum id (\<lambda>(row, cs, cache). (fst row, c_created (snd row)))
     (cached_get_contest demo_make_key
        (db_sample\<lparr>db_contests := [contest_president_2012, contest_governor_2002]\<rparr>)
        caches_sample contest_cache_sample rr_johnson_08) =
     Inr (length (db_contests db_sample) + 0, Some (demo_clock 0))"
proof -
  let ?d1 = "db_sample\<lparr>db_contests := [contest_president_2012, contest_governor_2002]\<rparr>"
  have rrs: "get_raw_results_after_2000 ?d1 = [rr_demo, rr_romney, rr_johnson_08, rr_write_in_2002]"
    by (simp add: filtered_sample)
  from candidates_loop_sample obtain cands seen where
    st: "candidates_loop demo_make_key demo_HumanName ?d1
           (take 2 (get_raw_results_after_2000 ?d1)) caches_sample Map.empty [] {} =
         Inr (caches_sample, contest_cache_sample, cands, seen)"
    unfolding rrs
    by (cases "candidates_loop demo_make_key demo_HumanName ?d1 [rr_demo, rr_romney]
                 caches_sample Map.empty [] {}") auto
  have k: "2 < length (get_raw_results_after_2000 ?d1)"
    "rr_johnson_08 = get_raw_results_after_2000 ?d1 ! 2"
    by (simp_all add: filtered_sample)
  have fnd: "find (\<lambda>x. contest_key x = contest_key rr_johnson_08)
               (get_raw_results_after_2000 ?d1) = Some rr_demo"
    by (simp add: filtered_sample contest_key_sample)
  have miss: "contest_cache_sample (contest_cache_key rr_johnson_08) = None"
    by (simp add: contest_cache_sample_def contest_cache_key_def demo_defs sample_defs)
  from uncached_contest_lookup_is_pass1_row
         [OF pass1_sample st k fnd same_contest_fields_sample miss cached_get_contest_sample]
  obtain i where
    i: "first_of_key (get_raw_results_after_2000 db_sample) ! i = rr_demo"
       "i < length (first_of_key (get_raw_results_after_2000 db_sample))" and
    row: "(0::nat) = length (db_contests db_sample) + i"
         "c_created contest_president_2012 = Some (demo_clock i)"
    by auto
  from row(1) have "i = 0" by simp
  with i row fnd miss same_contest_fields_sample cached_get_contest_sample show ?thesis
    by (simp add: filtered_sample)
qed

end
